theory Spec2Isabelle
  imports Main "HOL-Library.Finite_Map"
begin

section \<open>Values of the Go program\<close>

text \<open>
  \<^verbatim>\<open>type UserType int\<close> with the constants \<^verbatim>\<open>Subscriber = iota, Digest, Nomail,
  Moderator, Owner\<close>. The request constructors also store \<open>-1\<close> in a \<open>UserType\<close>, so the
  type stays an integer.
\<close>

type_synonym UserType = int

definition Subscriber :: UserType where "Subscriber = 0"
definition Digest :: UserType where "Digest = 1"
definition Nomail :: UserType where "Nomail = 2"
definition Moderator :: UserType where "Moderator = 3"
definition Owner :: UserType where "Owner = 4"

definition UserType_String :: "UserType \<Rightarrow> string" where
  "UserType_String t =
     (if t = Subscriber then ''Subscriber''
      else if t = Digest then ''Digest''
      else if t = Nomail then ''Nomail''
      else if t = Moderator then ''Moderator''
      else if t = Owner then ''Owner''
      else ''Unkown user type'')"

text \<open>
  A Go \<open>error\<close> value. \<open>UnwatchedList\<close> is the package variable of \<^verbatim>\<open>wrapper.go\<close>;
  every other error (\<^verbatim>\<open>errors.New\<close>, \<^verbatim>\<open>fmt.Errorf\<close>, whatever a handler or the
  file system reports) is \<open>Err\<close> with its message. A nil error is \<open>None\<close> of
  \<open>error option\<close>. A nil slice is the empty list.
\<close>

datatype error = UnwatchedList | Err string

record SubRequest =
  Mail :: string
  Name :: string
  ModerationString :: string
  Spool :: string
  WelcomeMail :: bool
  ConfirmationMail :: bool
  ForceSubscription :: bool
  BeQuiet :: bool
  MailAlreadySubscribed :: bool
  Mode :: UserType

record UnsubRequest =
  Mail :: string
  Name :: string
  Spool :: string
  GoodBye :: bool
  ConfirmationMail :: bool
  BeQuiet :: bool
  MailNotSubscribed :: bool
  Mode :: UserType

text \<open>
  What the program takes from outside the repository: \<^verbatim>\<open>path.Join\<close> of the Go library
  (used by \<open>listDir\<close>) and \<^verbatim>\<open>ioutil.ReadDir\<close>, which gives an error or the entries of
  a directory, each with its name and whether it is a directory.
\<close>

record env =
  path_Join :: "string \<Rightarrow> string \<Rightarrow> string"
  ioutil_ReadDir :: "string \<Rightarrow> error + (string \<times> bool) list"

definition listDir :: "env \<Rightarrow> string \<Rightarrow> string \<Rightarrow> string" where
  "listDir E spool name = path_Join E spool name"

definition GetLists :: "env \<Rightarrow> string \<Rightarrow> string list \<times> error option" where
  "GetLists E spool =
     (case ioutil_ReadDir E spool of
        Inl err \<Rightarrow> ([], Some err)
      | Inr files \<Rightarrow> (map fst (filter snd files), None))"

section \<open>Locks, the heap and the trace\<close>

text \<open>
  A \<^verbatim>\<open>sync.RWMutex\<close>: held by one writer, or by a number of readers. The mutexes
  that \<^verbatim>\<open>new(sync.RWMutex)\<close> allocates live in \<open>heap\<close>, at the addresses below
  \<open>nextp\<close>; an address is the identity of a lock. The manager's own mutex is a field
  of the struct. \<open>lists\<close> is \<open>None\<close> for Go's nil map.

  \<open>trace\<close> is a log of what a run did, in order: every lock operation that completed,
  every call of a release function and every call of the handler. The program does not
  read it.
\<close>

record RWMutex =
  writer :: bool
  readers :: nat

definition new_RWMutex :: RWMutex where
  "new_RWMutex = \<lparr>writer = False, readers = 0\<rparr>"

datatype lockref = Top | Res nat

datatype hcall =
    CallMakeML string string
  | CallSub string string
  | CallUnsub string string
  | CallList string string UserType
  | CallCount string string UserType

datatype event =
    EvLock lockref
  | EvUnlock lockref
  | EvRLock lockref
  | EvRUnlock lockref
  | EvRelease
  | EvHandler hcall

record ListManager =
  mutex :: RWMutex
  lists :: "(string, nat) fmap option"

record world =
  lm :: ListManager
  heap :: "nat \<Rightarrow> RWMutex"
  nextp :: nat
  trace :: "event list"

text \<open>
  How a call ends: it returns a value, it is suspended on a lock that another holder
  has (\<open>Blocks\<close>, with the state in which it waits), or it panics.
\<close>

datatype 'a outcome = Returns 'a world | Blocks world | Panics string world

fun then_do :: "'a outcome \<Rightarrow> ('a \<Rightarrow> world \<Rightarrow> 'b outcome) \<Rightarrow> 'b outcome" where
  "then_do (Returns a s) f = f a s"
| "then_do (Blocks s) f = Blocks s"
| "then_do (Panics e s) f = Panics e s"

text \<open>
  \<^verbatim>\<open>defer d()\<close> around a body: \<open>d\<close> runs when the body returns and when it panics,
  not while it is suspended.
\<close>

fun deferred :: "(world \<Rightarrow> unit outcome) \<Rightarrow> 'a outcome \<Rightarrow> 'a outcome" where
  "deferred d (Returns a s) = then_do (d s) (\<lambda>_ s'. Returns a s')"
| "deferred d (Panics e s) = then_do (d s) (\<lambda>_ s'. Panics e s')"
| "deferred d (Blocks s) = Blocks s"

definition get_mutex :: "lockref \<Rightarrow> world \<Rightarrow> RWMutex" where
  "get_mutex l s = (case l of Top \<Rightarrow> mutex (lm s) | Res a \<Rightarrow> heap s a)"

definition set_mutex :: "lockref \<Rightarrow> RWMutex \<Rightarrow> world \<Rightarrow> world" where
  "set_mutex l m s =
     (case l of
        Top \<Rightarrow> s\<lparr>lm := (lm s)\<lparr>mutex := m\<rparr>\<rparr>
      | Res a \<Rightarrow> s\<lparr>heap := (heap s)(a := m)\<rparr>)"

definition emit :: "event \<Rightarrow> world \<Rightarrow> world" where
  "emit e s = s\<lparr>trace := trace s @ [e]\<rparr>"

text \<open>
  The four operations of a mutex. \<open>Lock\<close> waits while a writer or a reader holds the
  mutex, \<open>RLock\<close> while a writer holds it. (Go also makes a new reader wait behind a
  writer that is waiting; the callers that wait are not part of the state, so this is
  left out.) \<open>Unlock\<close> and \<open>RUnlock\<close> of a mutex that is not held that way end the
  program; here they panic.
\<close>

definition RWMutex_Lock :: "lockref \<Rightarrow> world \<Rightarrow> unit outcome" where
  "RWMutex_Lock l s =
     (let m = get_mutex l s in
      if writer m \<or> readers m \<noteq> 0 then Blocks s
      else Returns () (emit (EvLock l) (set_mutex l (m\<lparr>writer := True\<rparr>) s)))"

definition RWMutex_Unlock :: "lockref \<Rightarrow> world \<Rightarrow> unit outcome" where
  "RWMutex_Unlock l s =
     (let m = get_mutex l s in
      if \<not> writer m then Panics ''sync: Unlock of unlocked RWMutex'' s
      else Returns () (emit (EvUnlock l) (set_mutex l (m\<lparr>writer := False\<rparr>) s)))"

definition RWMutex_RLock :: "lockref \<Rightarrow> world \<Rightarrow> unit outcome" where
  "RWMutex_RLock l s =
     (let m = get_mutex l s in
      if writer m then Blocks s
      else Returns () (emit (EvRLock l) (set_mutex l (m\<lparr>readers := Suc (readers m)\<rparr>) s)))"

definition RWMutex_RUnlock :: "lockref \<Rightarrow> world \<Rightarrow> unit outcome" where
  "RWMutex_RUnlock l s =
     (let m = get_mutex l s in
      if readers m = 0 then Panics ''sync: RUnlock of unlocked RWMutex'' s
      else Returns () (emit (EvRUnlock l) (set_mutex l (m\<lparr>readers := readers m - 1\<rparr>) s)))"

section \<open>The list manager\<close>

text \<open>
  The manager is the one whose \<open>Init\<close> takes a list of spools, which is the one that
  \<open>NewMLMMJWrapper\<close> of \<^verbatim>\<open>wrapper.go\<close> calls; \<open>AddList\<close>, \<open>RemoveList\<close>, \<open>ReadList\<close>
  and \<open>WriteList\<close> are the same in both files that hold a manager.

  \<^verbatim>\<open>NewListManager\<close> returns \<^verbatim>\<open>&ListManager{}\<close>: a free mutex and a nil map.
\<close>

definition NewListManager :: ListManager where
  "NewListManager = \<lparr>mutex = new_RWMutex, lists = None\<rparr>"

text \<open>\<^verbatim>\<open>m, hasList := lm.lists[name]\<close>; reading a nil map finds nothing.\<close>

definition index_lists :: "string \<Rightarrow> world \<Rightarrow> nat option" where
  "index_lists name s =
     (case lists (lm s) of None \<Rightarrow> None | Some m \<Rightarrow> fmlookup m name)"

text \<open>
  \<^verbatim>\<open>lm.lists[fullPath] = new(sync.RWMutex)\<close>: the mutex is allocated, then the
  assignment panics when the map is nil.
\<close>

definition AddList :: "string \<Rightarrow> world \<Rightarrow> bool outcome" where
  "AddList fullPath s =
     then_do (RWMutex_Lock Top s) (\<lambda>_ s1.
       deferred (RWMutex_Unlock Top)
         (if index_lists fullPath s1 \<noteq> None then Returns False s1
          else
            (let a = nextp s1;
                 s2 = s1\<lparr>heap := (heap s1)(a := new_RWMutex), nextp := Suc a\<rparr>
             in case lists (lm s2) of
                  None \<Rightarrow> Panics ''assignment to entry in nil map'' s2
                | Some m \<Rightarrow> Returns True (s2\<lparr>lm := (lm s2)\<lparr>lists := Some (fmupd fullPath a m)\<rparr>\<rparr>))))"

definition RemoveList :: "string \<Rightarrow> world \<Rightarrow> bool outcome" where
  "RemoveList fullPath s =
     then_do (RWMutex_Lock Top s) (\<lambda>_ s1.
       deferred (RWMutex_Unlock Top)
         (if index_lists fullPath s1 = None then Returns False s1
          else Returns True (s1\<lparr>lm := (lm s1)\<lparr>lists := map_option (fmdrop fullPath) (lists (lm s1))\<rparr>\<rparr>)))"

text \<open>
  The three closures that \<open>ReadList\<close> and \<open>WriteList\<close> return:
  \<^verbatim>\<open>func() {}\<close>, \<^verbatim>\<open>func() { m.RUnlock() }\<close> and \<^verbatim>\<open>func() { m.Unlock() }\<close>,
  with the address of the captured \<open>m\<close>.
\<close>

datatype release = NoOp | DoRUnlock nat | DoUnlock nat

definition call_release :: "release \<Rightarrow> world \<Rightarrow> unit outcome" where
  "call_release f s =
     (case f of
        NoOp \<Rightarrow> Returns () (emit EvRelease s)
      | DoRUnlock a \<Rightarrow> RWMutex_RUnlock (Res a) (emit EvRelease s)
      | DoUnlock a \<Rightarrow> RWMutex_Unlock (Res a) (emit EvRelease s))"

definition ReadList :: "string \<Rightarrow> world \<Rightarrow> (bool \<times> release) outcome" where
  "ReadList fullPath s =
     then_do (RWMutex_RLock Top s) (\<lambda>_ s1.
       deferred (RWMutex_RUnlock Top)
         (case index_lists fullPath s1 of
            None \<Rightarrow> Returns (False, NoOp) s1
          | Some a \<Rightarrow>
              then_do (RWMutex_RLock (Res a) s1) (\<lambda>_ s2. Returns (True, DoRUnlock a) s2)))"

definition WriteList :: "string \<Rightarrow> world \<Rightarrow> (bool \<times> release) outcome" where
  "WriteList fullPath s =
     then_do (RWMutex_RLock Top s) (\<lambda>_ s1.
       deferred (RWMutex_RUnlock Top)
         (case index_lists fullPath s1 of
            None \<Rightarrow> Returns (False, NoOp) s1
          | Some a \<Rightarrow>
              then_do (RWMutex_Lock (Res a) s1) (\<lambda>_ s2. Returns (True, DoUnlock a) s2)))"

subsection \<open>Init\<close>

text \<open>
  \<open>Init\<close> starts one goroutine per spool and then receives \<open>len(spoolList)\<close> errors
  from a channel with that capacity, so no send waits. A goroutine calls \<open>GetLists\<close>,
  then \<open>AddList\<close> for each name, then sends its error. The goroutines interleave: a
  schedule names, step by step, the goroutine that moves next, and one step is the call
  of \<open>GetLists\<close>, one whole \<open>AddList\<close> (it holds the manager's mutex from its first
  to its last statement) or the send. The file system does not change during a run.
  The channel is first in, first out, so \<open>Init\<close> receives the errors in the order of
  the sends; it returns once it has received them all and waits until then.
\<close>

datatype goroutine = GStart string | GAdding string "string list" "error option" | GDone

definition Init_step ::
  "env \<Rightarrow> nat \<Rightarrow> goroutine list \<times> error option list \<Rightarrow> world
     \<Rightarrow> (goroutine list \<times> error option list) outcome" where
  "Init_step E i c s =
     (case c of (gs, ch) \<Rightarrow>
        if length gs \<le> i then Returns (gs, ch) s
        else
          (case gs ! i of
             GStart spool \<Rightarrow>
               (case GetLists E spool of
                  (ls, err) \<Rightarrow> Returns (gs[i := GAdding spool ls err], ch) s)
           | GAdding spool [] err \<Rightarrow> Returns (gs[i := GDone], ch @ [err]) s
           | GAdding spool (l # ls) err \<Rightarrow>
               (case AddList (listDir E spool l) s of
                  Returns _ s' \<Rightarrow> Returns (gs[i := GAdding spool ls err], ch) s'
                | Blocks _ \<Rightarrow> Returns (gs, ch) s
                | Panics e p \<Rightarrow> Panics e p)
           | GDone \<Rightarrow> Returns (gs, ch) s))"

fun Init_run ::
  "env \<Rightarrow> nat list \<Rightarrow> goroutine list \<times> error option list \<Rightarrow> world
     \<Rightarrow> (goroutine list \<times> error option list) outcome" where
  "Init_run E [] c s = Returns c s"
| "Init_run E (i # sched) c s = then_do (Init_step E i c s) (Init_run E sched)"

text \<open>
  The receiving loop of \<open>Init\<close> and of the two fan-out operations:
  \<^verbatim>\<open>next := <-ch; if err == nil { err = next }\<close>, once per received value.
\<close>

fun collect_errors :: "error option \<Rightarrow> error option list \<Rightarrow> error option" where
  "collect_errors err [] = err"
| "collect_errors err (next # ch) = collect_errors (if err = None then next else err) ch"

definition Init :: "env \<Rightarrow> string list \<Rightarrow> nat list \<Rightarrow> world \<Rightarrow> error option outcome" where
  "Init E spoolList sched s =
     then_do
       (Init_run E sched (map GStart spoolList, [])
          (s\<lparr>lm := (lm s)\<lparr>lists := Some fmempty\<rparr>\<rparr>))
       (\<lambda>c s'. case c of (gs, ch) \<Rightarrow>
          if length ch < length spoolList then Blocks s'
          else Returns (collect_errors None (take (length spoolList) ch)) s')"

section \<open>The wrapper\<close>

text \<open>
  The \<open>MLMMJHandler\<close> interface. A handler is a function of its arguments, the context
  among them (a handler that honours a cancelled context returns an error for it).
\<close>

record 'c MLMMJHandler =
  Handler_MakeML :: "'c \<Rightarrow> string \<Rightarrow> string \<Rightarrow> string \<Rightarrow> string \<Rightarrow> string \<Rightarrow> string \<times> error option"
  Handler_Sub :: "'c \<Rightarrow> SubRequest \<Rightarrow> string \<times> error option"
  Handler_Unsub :: "'c \<Rightarrow> UnsubRequest \<Rightarrow> string \<times> error option"
  Handler_List :: "'c \<Rightarrow> string \<Rightarrow> string \<Rightarrow> UserType \<Rightarrow> string list \<times> error option"
  Handler_Count :: "'c \<Rightarrow> string \<Rightarrow> string \<Rightarrow> UserType \<Rightarrow> int \<times> error option"

definition Wrapper_MakeML ::
  "env \<Rightarrow> 'c MLMMJHandler \<Rightarrow> 'c \<Rightarrow> string \<Rightarrow> string \<Rightarrow> string \<Rightarrow> string \<Rightarrow> string \<Rightarrow> world
     \<Rightarrow> (string \<times> error option) outcome" where
  "Wrapper_MakeML E H ctx spool name domain owner lang s =
     (case Handler_MakeML H ctx spool name domain owner lang of
        (output, err) \<Rightarrow>
          (let s1 = emit (EvHandler (CallMakeML spool name)) s in
           if err \<noteq> None then Returns (output, err) s1
           else then_do (AddList (listDir E spool name) s1) (\<lambda>_ s2. Returns (output, err) s2)))"

definition Wrapper_Sub ::
  "env \<Rightarrow> 'c MLMMJHandler \<Rightarrow> 'c \<Rightarrow> SubRequest \<Rightarrow> world \<Rightarrow> (string \<times> error option) outcome" where
  "Wrapper_Sub E H ctx r s =
     then_do (WriteList (listDir E (SubRequest.Spool r) (SubRequest.Name r)) s) (\<lambda>g s1.
       case g of (hasList, lock) \<Rightarrow>
         deferred (call_release lock)
           (if \<not> hasList then Returns ([], Some UnwatchedList) s1
            else Returns (Handler_Sub H ctx r)
                   (emit (EvHandler (CallSub (SubRequest.Spool r) (SubRequest.Name r))) s1)))"

definition Wrapper_Unsub ::
  "env \<Rightarrow> 'c MLMMJHandler \<Rightarrow> 'c \<Rightarrow> UnsubRequest \<Rightarrow> world \<Rightarrow> (string \<times> error option) outcome" where
  "Wrapper_Unsub E H ctx r s =
     then_do (WriteList (listDir E (UnsubRequest.Spool r) (UnsubRequest.Name r)) s) (\<lambda>g s1.
       case g of (hasList, lock) \<Rightarrow>
         deferred (call_release lock)
           (if \<not> hasList then Returns ([], Some UnwatchedList) s1
            else Returns (Handler_Unsub H ctx r)
                   (emit (EvHandler (CallUnsub (UnsubRequest.Spool r) (UnsubRequest.Name r))) s1)))"

definition Wrapper_List ::
  "env \<Rightarrow> 'c MLMMJHandler \<Rightarrow> 'c \<Rightarrow> string \<Rightarrow> string \<Rightarrow> UserType \<Rightarrow> world
     \<Rightarrow> (string list \<times> error option) outcome" where
  "Wrapper_List E H ctx spool name mode s =
     then_do (ReadList (listDir E spool name) s) (\<lambda>g s1.
       case g of (hasList, lock) \<Rightarrow>
         deferred (call_release lock)
           (if \<not> hasList then Returns ([], Some UnwatchedList) s1
            else Returns (Handler_List H ctx spool name mode)
                   (emit (EvHandler (CallList spool name mode)) s1)))"

definition Wrapper_Count ::
  "env \<Rightarrow> 'c MLMMJHandler \<Rightarrow> 'c \<Rightarrow> string \<Rightarrow> string \<Rightarrow> UserType \<Rightarrow> world
     \<Rightarrow> (int \<times> error option) outcome" where
  "Wrapper_Count E H ctx spool name mode s =
     then_do (ReadList (listDir E spool name) s) (\<lambda>g s1.
       case g of (hasList, lock) \<Rightarrow>
         deferred (call_release lock)
           (if \<not> hasList then Returns (- 1, Some UnwatchedList) s1
            else Returns (Handler_Count H ctx spool name mode)
                   (emit (EvHandler (CallCount spool name mode)) s1)))"

subsection \<open>The fan-out operations\<close>

text \<open>
  \<open>ListAllMembers\<close> and \<open>ListAllControllers\<close> start one goroutine per category. A
  goroutine calls the handler and assigns the data to its own result variable (one
  step), then sends the error on the channel (one step). As in \<open>Init\<close>, a schedule
  names the goroutine that moves next, the channel has room for every send, and the
  caller returns once it has received one error per goroutine. \<open>modes\<close> lists the
  categories in the order in which the source starts their goroutines; \<open>slots\<close> are the
  result variables, in that order.
\<close>

datatype fetcher = FStart | FSend "error option" | FDone

type_synonym fan = "fetcher list \<times> string list list \<times> error option list"

definition fan_step ::
  "'c MLMMJHandler \<Rightarrow> 'c \<Rightarrow> string \<Rightarrow> string \<Rightarrow> UserType list \<Rightarrow> nat \<Rightarrow> fan \<times> world \<Rightarrow> fan \<times> world" where
  "fan_step H ctx spool name modes i c =
     (case c of ((fs, slots, ch), s) \<Rightarrow>
        if length fs \<le> i then c
        else
          (case fs ! i of
             FStart \<Rightarrow>
               (case Handler_List H ctx spool name (modes ! i) of
                  (data, nextErr) \<Rightarrow>
                    ((fs[i := FSend nextErr], slots[i := data], ch),
                     emit (EvHandler (CallList spool name (modes ! i))) s))
           | FSend nextErr \<Rightarrow> ((fs[i := FDone], slots, ch @ [nextErr]), s)
           | FDone \<Rightarrow> c))"

definition fan_out ::
  "'c MLMMJHandler \<Rightarrow> 'c \<Rightarrow> string \<Rightarrow> string \<Rightarrow> UserType list \<Rightarrow> nat list \<Rightarrow> world \<Rightarrow> fan \<times> world" where
  "fan_out H ctx spool name modes sched s =
     fold (fan_step H ctx spool name modes) sched
       ((replicate (length modes) FStart, replicate (length modes) [], []), s)"

definition Wrapper_ListAllMembers ::
  "env \<Rightarrow> 'c MLMMJHandler \<Rightarrow> 'c \<Rightarrow> string \<Rightarrow> string \<Rightarrow> nat list \<Rightarrow> world
     \<Rightarrow> ((string list \<times> string list \<times> string list) \<times> error option) outcome" where
  "Wrapper_ListAllMembers E H ctx spool name sched s =
     then_do (ReadList (listDir E spool name) s) (\<lambda>g s1.
       case g of (hasList, lock) \<Rightarrow>
         deferred (call_release lock)
           (if \<not> hasList then Returns (([], [], []), Some UnwatchedList) s1
            else
              (case fan_out H ctx spool name [Subscriber, Digest, Nomail] sched s1 of
                 ((fs, slots, ch), s2) \<Rightarrow>
                   if length ch < 3 then Blocks s2
                   else Returns ((slots ! 0, slots ! 1, slots ! 2),
                                 collect_errors None (take 3 ch)) s2)))"

definition Wrapper_ListAllControllers ::
  "env \<Rightarrow> 'c MLMMJHandler \<Rightarrow> 'c \<Rightarrow> string \<Rightarrow> string \<Rightarrow> nat list \<Rightarrow> world
     \<Rightarrow> ((string list \<times> string list) \<times> error option) outcome" where
  "Wrapper_ListAllControllers E H ctx spool name sched s =
     then_do (ReadList (listDir E spool name) s) (\<lambda>g s1.
       case g of (hasList, lock) \<Rightarrow>
         deferred (call_release lock)
           (if \<not> hasList then Returns (([], []), Some UnwatchedList) s1
            else
              (case fan_out H ctx spool name [Owner, Moderator] sched s1 of
                 ((fs, slots, ch), s2) \<Rightarrow>
                   if length ch < 2 then Blocks s2
                   else Returns ((slots ! 0, slots ! 1),
                                 collect_errors None (take 2 ch)) s2)))"

text \<open>
  \<open>NewMLMMJWrapper\<close>: a new manager, then \<open>Init\<close>; an error of \<open>Init\<close> is returned in
  place of the wrapper. The wrapper's manager is the \<open>lm\<close> of the state it leaves.
\<close>

definition NewMLMMJWrapper :: "env \<Rightarrow> string list \<Rightarrow> nat list \<Rightarrow> world \<Rightarrow> error option outcome" where
  "NewMLMMJWrapper E spools sched s = Init E spools sched (s\<lparr>lm := NewListManager\<rparr>)"

section \<open>The handler that posts to the service\<close>

text \<open>
  \<open>UnsubRequest.GetArgs\<close>. The \<open>switch\<close> on the mode, then the flags in the order of
  the source.
\<close>

definition UnsubRequest_GetArgs :: "env \<Rightarrow> UnsubRequest \<Rightarrow> string list \<times> error option" where
  "UnsubRequest_GetArgs E r =
     (let m = UnsubRequest.Mode r in
      if m = Moderator \<or> m = Owner then
        ([], Some (Err (''Invalid subscription type '' @ UserType_String m @ '' for unsubscription'')))
      else if m \<noteq> Subscriber \<and> m \<noteq> Digest \<and> m \<noteq> Nomail \<and> m \<noteq> - 1 then
        ([], Some (Err ''Unkown subscription type''))
      else
        (let subType = (if m = Subscriber then ''-N'' else if m = Digest then ''-d''
                        else if m = Nomail then ''-n'' else [])
         in (([''-L'', listDir E (UnsubRequest.Spool r) (UnsubRequest.Name r)]
              @ (if subType \<noteq> [] then [subType] else [])
              @ (if GoodBye r then [''-c''] else [])
              @ (if UnsubRequest.ConfirmationMail r then [''-C''] else [])
              @ (if UnsubRequest.BeQuiet r then [''-q''] else [])
              @ (if \<not> MailNotSubscribed r then [''-s''] else [])), None)))"

text \<open>
  \<open>DockerHandler.post\<close>. The exchange with the service (encoding the request, the
  HTTP round trip, decoding the answer) is a parameter: it fails, or gives the
  \<open>ReturnCode\<close> and the \<open>Output\<close> of the answer. Beside its result, \<open>post\<close> and
  \<open>Unsub\<close> give the list of the commands they posted.
\<close>

type_synonym 'c service = "'c \<Rightarrow> string \<Rightarrow> string list \<Rightarrow> error + (int \<times> string)"

definition DockerHandler_post ::
  "'c service \<Rightarrow> 'c \<Rightarrow> string \<Rightarrow> string list \<Rightarrow> (string \<times> error option) \<times> (string \<times> string list) list" where
  "DockerHandler_post T ctx cmd args =
     ((case T ctx cmd args of
         Inl err \<Rightarrow> ([], Some err)
       | Inr (returnCode, output) \<Rightarrow>
           if returnCode \<noteq> 0 then (output, Some (Err output)) else (output, None)),
      [(cmd, args)])"

definition DockerHandler_Unsub ::
  "env \<Rightarrow> 'c service \<Rightarrow> 'c \<Rightarrow> UnsubRequest \<Rightarrow> (string \<times> error option) \<times> (string \<times> string list) list" where
  "DockerHandler_Unsub E T ctx r =
     (case UnsubRequest_GetArgs E r of
        (args, argsErr) \<Rightarrow>
          if argsErr \<noteq> None then (([], argsErr), [])
          else DockerHandler_post T ctx ''mlmmj-unsub'' args)"

section \<open>Predicates on states, and example inputs\<close>

text \<open>A mutex nobody holds.\<close>

definition free :: "RWMutex \<Rightarrow> bool" where
  "free m = (\<not> writer m \<and> readers m = 0)"

text \<open>
  Every address the map holds has been allocated. \<open>Init\<close> establishes this, and
  \<open>AddList\<close> and \<open>RemoveList\<close> keep it.
\<close>

definition allocated :: "world \<Rightarrow> bool" where
  "allocated s =
     (case lists (lm s) of None \<Rightarrow> True | Some m \<Rightarrow> \<forall>a \<in> fmran' m. a < nextp s)"

definition example_env :: env where
  "example_env =
     \<lparr>path_Join = (\<lambda>dir name. dir @ ''/'' @ name),
      ioutil_ReadDir = (\<lambda>dir.
        if dir = ''/spool'' then Inr [(''alpha'', True), (''README'', False), (''beta'', True)]
        else if dir = ''/more'' then Inr [(''gamma'', True)]
        else Inl (Err ''no such directory''))\<rparr>"

text \<open>The state of a program that has only called \<open>NewListManager\<close>.\<close>

definition fresh_world :: world where
  "fresh_world = \<lparr>lm = NewListManager, heap = (\<lambda>_. new_RWMutex), nextp = 0, trace = []\<rparr>"

text \<open>An initialised manager with no list, and one with the list \<open>/spool/alpha\<close>.\<close>

definition empty_world :: world where
  "empty_world = fresh_world\<lparr>lm := \<lparr>mutex = new_RWMutex, lists = Some fmempty\<rparr>\<rparr>"

definition alpha_world :: world where
  "alpha_world =
     \<lparr>lm = \<lparr>mutex = new_RWMutex, lists = Some (fmupd ''/spool/alpha'' 0 fmempty)\<rparr>,
      heap = (\<lambda>_. new_RWMutex), nextp = 1, trace = []\<rparr>"

text \<open>
  A state in which another caller holds the lock of \<open>/spool/alpha\<close> for writing, and
  the state in which a second caller of \<open>WriteList\<close> for that list then waits.
\<close>

definition held_world :: world where
  "held_world = alpha_world\<lparr>heap := (heap alpha_world)(0 := \<lparr>writer = True, readers = 0\<rparr>)\<rparr>"

definition waiting_world :: world where
  "waiting_world =
     held_world\<lparr>lm := (lm held_world)\<lparr>mutex := \<lparr>writer = False, readers = 1\<rparr>\<rparr>,
                trace := [EvRLock Top]\<rparr>"

text \<open>
  What a guarded operation leaves behind when it has returned: the state it found
  with events added to the log, among them one call of the release function, and the
  unlocks of per-list locks among them are exactly \<open>unlocks\<close>.
\<close>

fun is_list_unlock :: "event \<Rightarrow> bool" where
  "is_list_unlock (EvUnlock (Res a)) = True"
| "is_list_unlock (EvRUnlock (Res a)) = True"
| "is_list_unlock e = False"

fun is_list_lock :: "event \<Rightarrow> bool" where
  "is_list_lock (EvLock (Res a)) = True"
| "is_list_lock (EvRLock (Res a)) = True"
| "is_list_lock e = False"

fun is_handler_call :: "event \<Rightarrow> bool" where
  "is_handler_call (EvHandler c) = True"
| "is_handler_call e = False"

definition released_once :: "world \<Rightarrow> event list \<Rightarrow> 'a outcome \<Rightarrow> bool" where
  "released_once s unlocks out =
     (\<exists>v evs. out = Returns v (s\<lparr>trace := trace s @ evs\<rparr>)
        \<and> count_list evs EvRelease = 1
        \<and> filter is_list_unlock evs = unlocks)"

text \<open>The first error of a sequence of received values that is not nil.\<close>

fun first_error :: "error option list \<Rightarrow> error option" where
  "first_error [] = None"
| "first_error (None # ch) = first_error ch"
| "first_error (Some e # ch) = Some e"

text \<open>
  Schedules. \<open>step_order k n\<close> reads a schedule from its last step back and lists the
  goroutines below \<open>n\<close> in the order in which each takes its step number \<open>k i\<close>
  (steps count from 0). A fetcher of a fan-out calls the handler at its step 0 and sends
  at its step 1; a goroutine of \<open>Init\<close> for a spool with \<open>m\<close> lists sends at its step
  \<open>m + 1\<close>. \<open>enough k n sched\<close>: every goroutine below \<open>n\<close> gets a step number \<open>k i\<close>
  in \<open>sched\<close>.
\<close>

fun step_order :: "(nat \<Rightarrow> nat) \<Rightarrow> nat \<Rightarrow> nat list \<Rightarrow> nat list" where
  "step_order k n [] = []"
| "step_order k n (i # before) =
     step_order k n before @ (if i < n \<and> count_list before i = k i then [i] else [])"

definition start_order :: "nat \<Rightarrow> nat list \<Rightarrow> nat list" where
  "start_order n sched = step_order (\<lambda>_. 0) n (rev sched)"

definition send_order :: "nat \<Rightarrow> nat list \<Rightarrow> nat list" where
  "send_order n sched = step_order (\<lambda>_. 1) n (rev sched)"

definition enough :: "(nat \<Rightarrow> nat) \<Rightarrow> nat \<Rightarrow> nat list \<Rightarrow> bool" where
  "enough k n sched = list_all (\<lambda>i. k i < count_list sched i) [0..<n]"

definition Init_steps :: "env \<Rightarrow> string list \<Rightarrow> nat \<Rightarrow> nat" where
  "Init_steps E spoolList i = Suc (length (fst (GetLists E (spoolList ! i))))"

definition finish_order :: "env \<Rightarrow> string list \<Rightarrow> nat list \<Rightarrow> nat list" where
  "finish_order E spoolList sched =
     step_order (Init_steps E spoolList) (length spoolList) (rev sched)"

text \<open>Every composed name that the spools of a list give.\<close>

definition discovered :: "env \<Rightarrow> string list \<Rightarrow> string set" where
  "discovered E spoolList =
     (\<Union>spool \<in> set spoolList. listDir E spool ` set (fst (GetLists E spool)))"

text \<open>
  Example handlers. \<open>listing_handler f\<close> answers \<open>List\<close> by \<open>f\<close> of the category;
  \<open>docker_handler E T\<close> has the \<open>Unsub\<close> of the handler that posts to the service.
\<close>

definition listing_handler :: "(UserType \<Rightarrow> string list \<times> error option) \<Rightarrow> unit MLMMJHandler" where
  "listing_handler f =
     \<lparr>Handler_MakeML = (\<lambda>ctx spool name domain owner lang. (''created'', None)),
      Handler_Sub = (\<lambda>ctx r. (''subscribed'', None)),
      Handler_Unsub = (\<lambda>ctx r. (''unsubscribed'', None)),
      Handler_List = (\<lambda>ctx spool name mode. f mode),
      Handler_Count = (\<lambda>ctx spool name mode. (int (length (fst (f mode))), snd (f mode)))\<rparr>"

definition one_fails :: "UserType \<Rightarrow> string list \<times> error option" where
  "one_fails mode =
     (if mode = Subscriber then ([''a@example.com''], None)
      else if mode = Digest then ([], Some (Err ''digest failed''))
      else if mode = Nomail then ([''n@example.com''], None)
      else ([''o@example.com''], None))"

definition two_fail :: "UserType \<Rightarrow> string list \<times> error option" where
  "two_fail mode =
     (if mode = Subscriber then ([], Some (Err ''subscriber failed''))
      else if mode = Digest then ([], Some (Err ''digest failed''))
      else if mode = Owner then ([], Some (Err ''owner failed''))
      else if mode = Moderator then ([], Some (Err ''moderator failed''))
      else ([''n@example.com''], None))"

definition failing_handler :: "unit MLMMJHandler" where
  "failing_handler =
     (listing_handler one_fails)
       \<lparr>Handler_MakeML := (\<lambda>ctx spool name domain owner lang. (''mlmmj-make-ml failed'', Some (Err ''exit 1'')))\<rparr>"

definition docker_handler :: "env \<Rightarrow> unit service \<Rightarrow> unit MLMMJHandler" where
  "docker_handler E T =
     (listing_handler one_fails)\<lparr>Handler_Unsub := (\<lambda>ctx r. fst (DockerHandler_Unsub E T ctx r))\<rparr>"

definition example_service :: "unit service" where
  "example_service = (\<lambda>ctx cmd args. Inr (0, ''done''))"

definition owner_unsub :: UnsubRequest where
  "owner_unsub =
     \<lparr>Mail = ''a@example.com'', Name = ''alpha'', Spool = ''/spool'', GoodBye = True,
      ConfirmationMail = False, BeQuiet = False, MailNotSubscribed = False, Mode = Owner\<rparr>"

definition alpha_sub :: SubRequest where
  "alpha_sub =
     \<lparr>SubRequest.Mail = ''a@example.com'', SubRequest.Name = ''alpha'',
      ModerationString = [], SubRequest.Spool = ''/spool'', WelcomeMail = True,
      SubRequest.ConfirmationMail = False, ForceSubscription = False,
      SubRequest.BeQuiet = False, MailAlreadySubscribed = False,
      SubRequest.Mode = Subscriber\<rparr>"

text \<open>The state in which a call ended.\<close>

fun final :: "'a outcome \<Rightarrow> world" where
  "final (Returns v s) = s"
| "final (Blocks s) = s"
| "final (Panics e s) = s"

text \<open>The state of a fetcher that has taken \<open>c\<close> steps and whose call gave the error \<open>e\<close>.\<close>

definition fetcher_after :: "error option \<Rightarrow> nat \<Rightarrow> fetcher" where
  "fetcher_after e c = (if c = 0 then FStart else if c = 1 then FSend e else FDone)"

text \<open>
  What a fan-out over \<open>modes\<close> under a schedule reports and logs: the first error that
  is not nil in the order of the sends, and the handler calls in the order in which the
  fetchers make them.
\<close>

definition fan_error ::
  "'c MLMMJHandler \<Rightarrow> 'c \<Rightarrow> string \<Rightarrow> string \<Rightarrow> UserType list \<Rightarrow> nat list \<Rightarrow> error option" where
  "fan_error H ctx spool name modes sched =
     first_error (map (\<lambda>i. snd (Handler_List H ctx spool name (modes ! i)))
                    (send_order (length modes) sched))"

definition fan_calls :: "string \<Rightarrow> string \<Rightarrow> UserType list \<Rightarrow> nat list \<Rightarrow> event list" where
  "fan_calls spool name modes sched =
     map (\<lambda>i. EvHandler (CallList spool name (modes ! i))) (start_order (length modes) sched)"

text \<open>
  For the lock of a list as the lookup gives it (\<open>None\<close> when the map does not hold the
  name): whether it can be taken for writing or for reading, and the unlock that
  releasing the guard performs.
\<close>

definition can_lock :: "world \<Rightarrow> nat option \<Rightarrow> bool" where
  "can_lock s g = (case g of None \<Rightarrow> True | Some a \<Rightarrow> free (heap s a))"

definition can_rlock :: "world \<Rightarrow> nat option \<Rightarrow> bool" where
  "can_rlock s g = (case g of None \<Rightarrow> True | Some a \<Rightarrow> \<not> writer (heap s a))"

definition unlocks_of :: "(lockref \<Rightarrow> event) \<Rightarrow> nat option \<Rightarrow> event list" where
  "unlocks_of u g = (case g of None \<Rightarrow> [] | Some a \<Rightarrow> [u (Res a)])"

text \<open>
  For \<open>Init\<close> under a schedule: the state of the goroutine of a spool that has taken
  \<open>c\<close> steps, the names installed so far, the error \<open>Init\<close> returns (the first that is
  not nil in the order of the sends), and what holds of the manager between steps: its
  mutex is free, its map holds exactly the names \<open>S\<close>, and every lock in the map was
  allocated at or after \<open>lo\<close>.
\<close>

definition goroutine_after :: "env \<Rightarrow> string \<Rightarrow> nat \<Rightarrow> goroutine" where
  "goroutine_after E spool c =
     (if c = 0 then GStart spool
      else if c \<le> Suc (length (fst (GetLists E spool)))
        then GAdding spool (drop (c - 1) (fst (GetLists E spool))) (snd (GetLists E spool))
      else GDone)"

definition installed :: "env \<Rightarrow> string list \<Rightarrow> nat list \<Rightarrow> string set" where
  "installed E spoolList sched =
     (\<Union>i < length spoolList.
        listDir E (spoolList ! i)
          ` set (take (count_list sched i - 1) (fst (GetLists E (spoolList ! i)))))"

definition Init_error :: "env \<Rightarrow> string list \<Rightarrow> nat list \<Rightarrow> error option" where
  "Init_error E spoolList sched =
     first_error (map (\<lambda>i. snd (GetLists E (spoolList ! i))) (finish_order E spoolList sched))"

definition Init_inv :: "nat \<Rightarrow> string set \<Rightarrow> world \<Rightarrow> bool" where
  "Init_inv lo S s =
     (free (mutex (lm s)) \<and> lo \<le> nextp s
      \<and> (\<exists>m. lists (lm s) = Some m \<and> fmdom' m = S
             \<and> (\<forall>a \<in> fmran' m. lo \<le> a \<and> a < nextp s)))"

text \<open>The goroutines and the channel of \<open>Init\<close> after the steps of a schedule.\<close>

definition Init_goroutines :: "env \<Rightarrow> string list \<Rightarrow> nat list \<Rightarrow> goroutine list" where
  "Init_goroutines E spoolList sched =
     map (\<lambda>i. goroutine_after E (spoolList ! i) (count_list sched i)) [0..<length spoolList]"

definition Init_chan :: "env \<Rightarrow> string list \<Rightarrow> nat list \<Rightarrow> error option list" where
  "Init_chan E spoolList sched =
     map (\<lambda>i. snd (GetLists E (spoolList ! i))) (finish_order E spoolList sched)"

section \<open>The list manager, call by call\<close>

lemmas lock_defs = RWMutex_Lock_def RWMutex_Unlock_def RWMutex_RLock_def RWMutex_RUnlock_def
  get_mutex_def set_mutex_def emit_def index_lists_def Let_def

lemma free_new [simp]: "free new_RWMutex"
  by (simp add: free_def new_RWMutex_def)

lemma AddList_fresh:
  assumes "free (mutex (lm s))" "lists (lm s) = Some m" "fmlookup m n = None"
  shows "AddList n s = Returns True
      (s\<lparr>lm := (lm s)\<lparr>lists := Some (fmupd n (nextp s) m)\<rparr>,
         heap := (heap s)(nextp s := new_RWMutex), nextp := Suc (nextp s),
         trace := trace s @ [EvLock Top, EvUnlock Top]\<rparr>)"
  using assms by (simp add: AddList_def lock_defs free_def)

lemma AddList_present:
  assumes "free (mutex (lm s))" "lists (lm s) = Some m" "fmlookup m n = Some a"
  shows "AddList n s = Returns False (s\<lparr>trace := trace s @ [EvLock Top, EvUnlock Top]\<rparr>)"
  using assms by (simp add: AddList_def lock_defs free_def)

lemma AddList_nil:
  assumes "free (mutex (lm s))" "lists (lm s) = None"
  shows "AddList n s = Panics ''assignment to entry in nil map''
      (s\<lparr>heap := (heap s)(nextp s := new_RWMutex), nextp := Suc (nextp s),
         trace := trace s @ [EvLock Top, EvUnlock Top]\<rparr>)"
  using assms by (simp add: AddList_def lock_defs free_def)

lemma AddList_busy:
  assumes "\<not> free (mutex (lm s))"
  shows "AddList n s = Blocks s"
  using assms by (auto simp add: AddList_def lock_defs free_def)

lemma RemoveList_present:
  assumes "free (mutex (lm s))" "lists (lm s) = Some m" "fmlookup m n = Some a"
  shows "RemoveList n s = Returns True
      (s\<lparr>lm := (lm s)\<lparr>lists := Some (fmdrop n m)\<rparr>,
         trace := trace s @ [EvLock Top, EvUnlock Top]\<rparr>)"
  using assms by (simp add: RemoveList_def lock_defs free_def)

lemma RemoveList_absent:
  assumes "free (mutex (lm s))" "index_lists n s = None"
  shows "RemoveList n s = Returns False (s\<lparr>trace := trace s @ [EvLock Top, EvUnlock Top]\<rparr>)"
  using assms by (simp add: RemoveList_def lock_defs free_def)

lemma ReadList_unknown:
  assumes "\<not> writer (mutex (lm s))" "index_lists n s = None"
  shows "ReadList n s = Returns (False, NoOp) (s\<lparr>trace := trace s @ [EvRLock Top, EvRUnlock Top]\<rparr>)"
  using assms by (simp add: ReadList_def lock_defs)

lemma WriteList_unknown:
  assumes "\<not> writer (mutex (lm s))" "index_lists n s = None"
  shows "WriteList n s = Returns (False, NoOp) (s\<lparr>trace := trace s @ [EvRLock Top, EvRUnlock Top]\<rparr>)"
  using assms by (simp add: WriteList_def lock_defs)

lemma ReadList_known:
  assumes "\<not> writer (mutex (lm s))" "index_lists n s = Some a" "\<not> writer (heap s a)"
  shows "ReadList n s = Returns (True, DoRUnlock a)
     (s\<lparr>heap := (heap s)(a := (heap s a)\<lparr>readers := Suc (readers (heap s a))\<rparr>),
        trace := trace s @ [EvRLock Top, EvRLock (Res a), EvRUnlock Top]\<rparr>)"
  using assms by (simp add: ReadList_def lock_defs)

lemma WriteList_known:
  assumes "\<not> writer (mutex (lm s))" "index_lists n s = Some a" "free (heap s a)"
  shows "WriteList n s = Returns (True, DoUnlock a)
     (s\<lparr>heap := (heap s)(a := (heap s a)\<lparr>writer := True\<rparr>),
        trace := trace s @ [EvRLock Top, EvLock (Res a), EvRUnlock Top]\<rparr>)"
  using assms by (simp add: WriteList_def lock_defs free_def)

lemma ReadList_waits:
  assumes "\<not> writer (mutex (lm s))" "index_lists n s = Some a" "writer (heap s a)"
  shows "ReadList n s = Blocks
     (s\<lparr>lm := (lm s)\<lparr>mutex := (mutex (lm s))\<lparr>readers := Suc (readers (mutex (lm s)))\<rparr>\<rparr>,
        trace := trace s @ [EvRLock Top]\<rparr>)"
  using assms by (simp add: ReadList_def lock_defs)

lemma WriteList_waits:
  assumes "\<not> writer (mutex (lm s))" "index_lists n s = Some a" "\<not> free (heap s a)"
  shows "WriteList n s = Blocks
     (s\<lparr>lm := (lm s)\<lparr>mutex := (mutex (lm s))\<lparr>readers := Suc (readers (mutex (lm s)))\<rparr>\<rparr>,
        trace := trace s @ [EvRLock Top]\<rparr>)"
  using assms by (auto simp add: WriteList_def lock_defs free_def)

section \<open>Claims about the list manager\<close>

text \<open>
  C10. On a manager as \<open>NewListManager\<close> returns it, before any \<open>Init\<close>, \<open>AddList\<close>
  panics on the assignment to the nil map, for every name; the deferred unlock has run
  by then. And whenever the manager's mutex is free, \<open>AddList\<close> returns if and only if
  the map has been made (which \<open>Init\<close> does first).
\<close>

theorem AddList_needs_Init:
  "(lm s = NewListManager \<longrightarrow>
      AddList name s = Panics ''assignment to entry in nil map''
        (s\<lparr>heap := (heap s)(nextp s := new_RWMutex), nextp := Suc (nextp s),
           trace := trace s @ [EvLock Top, EvUnlock Top]\<rparr>))
   \<and> (free (mutex (lm s)) \<longrightarrow>
        (\<exists>r s'. AddList name s = Returns r s') = (lists (lm s) \<noteq> None))"
proof (intro conjI impI)
  assume "lm s = NewListManager"
  then have "free (mutex (lm s))" "lists (lm s) = None"
    by (simp_all add: NewListManager_def)
  then show "AddList name s = Panics ''assignment to entry in nil map''
        (s\<lparr>heap := (heap s)(nextp s := new_RWMutex), nextp := Suc (nextp s),
           trace := trace s @ [EvLock Top, EvUnlock Top]\<rparr>)"
    by (rule AddList_nil)
next
  assume f: "free (mutex (lm s))"
  show "(\<exists>r s'. AddList name s = Returns r s') = (lists (lm s) \<noteq> None)"
  proof (cases "lists (lm s)")
    case None
    with f show ?thesis by (simp add: AddList_nil)
  next
    case (Some m)
    with f show ?thesis
      by (cases "fmlookup m name") (auto simp add: AddList_fresh AddList_present)
  qed
qed

theorem AddList_needs_Init_witness:
  "AddList ''/spool/alpha'' fresh_world =
     Panics ''assignment to entry in nil map''
       (fresh_world\<lparr>heap := (heap fresh_world)(0 := new_RWMutex), nextp := Suc 0,
          trace := [EvLock Top, EvUnlock Top]\<rparr>)
   \<and> (\<exists>r s'. AddList ''/spool/alpha'' empty_world = Returns r s')"
  using AddList_needs_Init [of fresh_world "''/spool/alpha''"]
    AddList_needs_Init [of empty_world "''/spool/alpha''"]
  by (simp add: fresh_world_def empty_world_def NewListManager_def)

text \<open>
  C7. For a name that the map does not hold (the map may be nil), \<open>ReadList\<close> and
  \<open>WriteList\<close> return \<open>false\<close> and the closure that does nothing, and the state they
  leave differs from the one they found in the log only: the map, the heap and both
  levels of locks are as before. Calling that closure changes the log only, in every
  state. The manager's mutex must not be held by a writer: the call waits for it
  otherwise.
\<close>

theorem unknown_name_guard:
  assumes "index_lists name s = None" and "\<not> writer (mutex (lm s))"
  shows "ReadList name s =
           Returns (False, NoOp) (s\<lparr>trace := trace s @ [EvRLock Top, EvRUnlock Top]\<rparr>)
       \<and> WriteList name s =
           Returns (False, NoOp) (s\<lparr>trace := trace s @ [EvRLock Top, EvRUnlock Top]\<rparr>)
       \<and> (\<forall>s'. call_release NoOp s' = Returns () (s'\<lparr>trace := trace s' @ [EvRelease]\<rparr>))"
  using assms by (simp add: ReadList_unknown WriteList_unknown call_release_def emit_def)

theorem unknown_name_guard_witness:
  "ReadList ''/spool/beta'' alpha_world =
           Returns (False, NoOp) (alpha_world\<lparr>trace := [EvRLock Top, EvRUnlock Top]\<rparr>)
   \<and> WriteList ''/spool/beta'' alpha_world =
           Returns (False, NoOp) (alpha_world\<lparr>trace := [EvRLock Top, EvRUnlock Top]\<rparr>)
   \<and> lists (lm (alpha_world\<lparr>trace := [EvRLock Top, EvRUnlock Top]\<rparr>)) = lists (lm alpha_world)"
  using unknown_name_guard [of "''/spool/beta''" alpha_world]
  by (simp add: alpha_world_def index_lists_def new_RWMutex_def)

section \<open>The wrapper, call by call\<close>

lemma free_relock [simp]:
  "free m \<Longrightarrow> m\<lparr>writer := False\<rparr> = m"
  by (simp add: free_def)

lemma Wrapper_Sub_unknown:
  assumes "\<not> writer (mutex (lm s))" "index_lists (listDir E (SubRequest.Spool r) (SubRequest.Name r)) s = None"
  shows "Wrapper_Sub E H ctx r s = Returns ([], Some UnwatchedList)
           (s\<lparr>trace := trace s @ [EvRLock Top, EvRUnlock Top, EvRelease]\<rparr>)"
  using assms by (simp add: Wrapper_Sub_def WriteList_unknown call_release_def emit_def)

lemma Wrapper_Unsub_unknown:
  assumes "\<not> writer (mutex (lm s))" "index_lists (listDir E (UnsubRequest.Spool r) (UnsubRequest.Name r)) s = None"
  shows "Wrapper_Unsub E H ctx r s = Returns ([], Some UnwatchedList)
           (s\<lparr>trace := trace s @ [EvRLock Top, EvRUnlock Top, EvRelease]\<rparr>)"
  using assms by (simp add: Wrapper_Unsub_def WriteList_unknown call_release_def emit_def)

lemma Wrapper_List_unknown:
  assumes "\<not> writer (mutex (lm s))" "index_lists (listDir E spool name) s = None"
  shows "Wrapper_List E H ctx spool name mode s = Returns ([], Some UnwatchedList)
           (s\<lparr>trace := trace s @ [EvRLock Top, EvRUnlock Top, EvRelease]\<rparr>)"
  using assms by (simp add: Wrapper_List_def ReadList_unknown call_release_def emit_def)

lemma Wrapper_Count_unknown:
  assumes "\<not> writer (mutex (lm s))" "index_lists (listDir E spool name) s = None"
  shows "Wrapper_Count E H ctx spool name mode s = Returns (- 1, Some UnwatchedList)
           (s\<lparr>trace := trace s @ [EvRLock Top, EvRUnlock Top, EvRelease]\<rparr>)"
  using assms by (simp add: Wrapper_Count_def ReadList_unknown call_release_def emit_def)

lemma Wrapper_ListAllMembers_unknown:
  assumes "\<not> writer (mutex (lm s))" "index_lists (listDir E spool name) s = None"
  shows "Wrapper_ListAllMembers E H ctx spool name sched s = Returns (([], [], []), Some UnwatchedList)
           (s\<lparr>trace := trace s @ [EvRLock Top, EvRUnlock Top, EvRelease]\<rparr>)"
  using assms by (simp add: Wrapper_ListAllMembers_def ReadList_unknown call_release_def emit_def)

lemma Wrapper_ListAllControllers_unknown:
  assumes "\<not> writer (mutex (lm s))" "index_lists (listDir E spool name) s = None"
  shows "Wrapper_ListAllControllers E H ctx spool name sched s = Returns (([], []), Some UnwatchedList)
           (s\<lparr>trace := trace s @ [EvRLock Top, EvRUnlock Top, EvRelease]\<rparr>)"
  using assms by (simp add: Wrapper_ListAllControllers_def ReadList_unknown call_release_def emit_def)

lemma Wrapper_Sub_known:
  assumes "\<not> writer (mutex (lm s))"
    "index_lists (listDir E (SubRequest.Spool r) (SubRequest.Name r)) s = Some a" "free (heap s a)"
  shows "Wrapper_Sub E H ctx r s = Returns (Handler_Sub H ctx r)
           (s\<lparr>trace := trace s @ [EvRLock Top, EvLock (Res a), EvRUnlock Top,
                 EvHandler (CallSub (SubRequest.Spool r) (SubRequest.Name r)),
                 EvRelease, EvUnlock (Res a)]\<rparr>)"
  using assms by (simp add: Wrapper_Sub_def WriteList_known call_release_def lock_defs)

lemma Wrapper_Unsub_known:
  assumes "\<not> writer (mutex (lm s))"
    "index_lists (listDir E (UnsubRequest.Spool r) (UnsubRequest.Name r)) s = Some a" "free (heap s a)"
  shows "Wrapper_Unsub E H ctx r s = Returns (Handler_Unsub H ctx r)
           (s\<lparr>trace := trace s @ [EvRLock Top, EvLock (Res a), EvRUnlock Top,
                 EvHandler (CallUnsub (UnsubRequest.Spool r) (UnsubRequest.Name r)),
                 EvRelease, EvUnlock (Res a)]\<rparr>)"
  using assms by (simp add: Wrapper_Unsub_def WriteList_known call_release_def lock_defs)

lemma Wrapper_List_known:
  assumes "\<not> writer (mutex (lm s))"
    "index_lists (listDir E spool name) s = Some a" "\<not> writer (heap s a)"
  shows "Wrapper_List E H ctx spool name mode s = Returns (Handler_List H ctx spool name mode)
           (s\<lparr>trace := trace s @ [EvRLock Top, EvRLock (Res a), EvRUnlock Top,
                 EvHandler (CallList spool name mode),
                 EvRelease, EvRUnlock (Res a)]\<rparr>)"
  using assms by (simp add: Wrapper_List_def ReadList_known call_release_def lock_defs)

lemma Wrapper_Count_known:
  assumes "\<not> writer (mutex (lm s))"
    "index_lists (listDir E spool name) s = Some a" "\<not> writer (heap s a)"
  shows "Wrapper_Count E H ctx spool name mode s = Returns (Handler_Count H ctx spool name mode)
           (s\<lparr>trace := trace s @ [EvRLock Top, EvRLock (Res a), EvRUnlock Top,
                 EvHandler (CallCount spool name mode),
                 EvRelease, EvRUnlock (Res a)]\<rparr>)"
  using assms by (simp add: Wrapper_Count_def ReadList_known call_release_def lock_defs)

lemma example_index [simp]:
  "index_lists n alpha_world = (if n = ''/spool/alpha'' then Some 0 else None)"
  "index_lists n held_world = (if n = ''/spool/alpha'' then Some 0 else None)"
  "index_lists n waiting_world = (if n = ''/spool/alpha'' then Some 0 else None)"
  "index_lists n empty_world = None"
  "index_lists n fresh_world = None"
  by (auto simp add: index_lists_def alpha_world_def held_world_def waiting_world_def
      empty_world_def fresh_world_def NewListManager_def)

lemma example_listDir [simp]: "listDir example_env spool name = spool @ ''/'' @ name"
  by (simp add: listDir_def example_env_def)

lemma example_mutex [simp]:
  "mutex (lm alpha_world) = new_RWMutex" "mutex (lm held_world) = new_RWMutex"
  "mutex (lm empty_world) = new_RWMutex" "mutex (lm fresh_world) = new_RWMutex"
  "heap alpha_world a = new_RWMutex"
  by (simp_all add: alpha_world_def held_world_def empty_world_def fresh_world_def NewListManager_def)

lemma example_trace [simp]:
  "trace alpha_world = []" "trace held_world = []" "trace empty_world = []" "trace fresh_world = []"
  by (simp_all add: alpha_world_def held_world_def empty_world_def fresh_world_def)

lemma writer_new [simp]: "\<not> writer new_RWMutex" "readers new_RWMutex = 0"
  by (simp_all add: new_RWMutex_def)

section \<open>Claims about the wrapper\<close>

text \<open>
  C1. For each of \<open>Sub\<close>, \<open>Unsub\<close>, \<open>List\<close>, \<open>ListAllMembers\<close>,
  \<open>ListAllControllers\<close> and \<open>Count\<close>: when the composed name is not in the map, the
  call returns \<open>UnwatchedList\<close> with the zero value of its data. What it did is the
  three events it adds to the log: the manager's mutex taken and given back for
  reading inside the guard acquisition, then the call of the release function. No
  handler event is among them, and the state is otherwise as it was. The manager's
  mutex must not be held by a writer, or the call waits for it.
\<close>

theorem unwatched_list_fails:
  assumes "\<not> writer (mutex (lm s))"
  shows "(index_lists (listDir E (SubRequest.Spool r) (SubRequest.Name r)) s = None \<longrightarrow>
            Wrapper_Sub E H ctx r s = Returns ([], Some UnwatchedList)
              (s\<lparr>trace := trace s @ [EvRLock Top, EvRUnlock Top, EvRelease]\<rparr>))
       \<and> (index_lists (listDir E (UnsubRequest.Spool u) (UnsubRequest.Name u)) s = None \<longrightarrow>
            Wrapper_Unsub E H ctx u s = Returns ([], Some UnwatchedList)
              (s\<lparr>trace := trace s @ [EvRLock Top, EvRUnlock Top, EvRelease]\<rparr>))
       \<and> (index_lists (listDir E spool name) s = None \<longrightarrow>
            Wrapper_List E H ctx spool name mode s = Returns ([], Some UnwatchedList)
              (s\<lparr>trace := trace s @ [EvRLock Top, EvRUnlock Top, EvRelease]\<rparr>)
          \<and> Wrapper_ListAllMembers E H ctx spool name sched s =
              Returns (([], [], []), Some UnwatchedList)
                (s\<lparr>trace := trace s @ [EvRLock Top, EvRUnlock Top, EvRelease]\<rparr>)
          \<and> Wrapper_ListAllControllers E H ctx spool name sched s =
              Returns (([], []), Some UnwatchedList)
                (s\<lparr>trace := trace s @ [EvRLock Top, EvRUnlock Top, EvRelease]\<rparr>)
          \<and> Wrapper_Count E H ctx spool name mode s = Returns (- 1, Some UnwatchedList)
              (s\<lparr>trace := trace s @ [EvRLock Top, EvRUnlock Top, EvRelease]\<rparr>))"
  using assms
  by (simp add: Wrapper_Sub_unknown Wrapper_Unsub_unknown Wrapper_List_unknown
      Wrapper_ListAllMembers_unknown Wrapper_ListAllControllers_unknown Wrapper_Count_unknown)

theorem unwatched_list_fails_witness:
  "Wrapper_Sub example_env (listing_handler one_fails) () (alpha_sub\<lparr>SubRequest.Name := ''beta''\<rparr>) alpha_world
     = Returns ([], Some UnwatchedList) (alpha_world\<lparr>trace := [EvRLock Top, EvRUnlock Top, EvRelease]\<rparr>)
   \<and> Wrapper_Unsub example_env (listing_handler one_fails) () (owner_unsub\<lparr>UnsubRequest.Name := ''beta''\<rparr>) alpha_world
     = Returns ([], Some UnwatchedList) (alpha_world\<lparr>trace := [EvRLock Top, EvRUnlock Top, EvRelease]\<rparr>)
   \<and> Wrapper_List example_env (listing_handler one_fails) () ''/spool'' ''beta'' Subscriber alpha_world
     = Returns ([], Some UnwatchedList) (alpha_world\<lparr>trace := [EvRLock Top, EvRUnlock Top, EvRelease]\<rparr>)
   \<and> Wrapper_ListAllMembers example_env (listing_handler one_fails) () ''/spool'' ''beta'' [0, 1, 2, 0, 1, 2] alpha_world
     = Returns (([], [], []), Some UnwatchedList) (alpha_world\<lparr>trace := [EvRLock Top, EvRUnlock Top, EvRelease]\<rparr>)
   \<and> Wrapper_ListAllControllers example_env (listing_handler one_fails) () ''/spool'' ''beta'' [0, 1, 0, 1] alpha_world
     = Returns (([], []), Some UnwatchedList) (alpha_world\<lparr>trace := [EvRLock Top, EvRUnlock Top, EvRelease]\<rparr>)
   \<and> Wrapper_Count example_env (listing_handler one_fails) () ''/spool'' ''beta'' Subscriber alpha_world
     = Returns (- 1, Some UnwatchedList) (alpha_world\<lparr>trace := [EvRLock Top, EvRUnlock Top, EvRelease]\<rparr>)"
  using unwatched_list_fails [of alpha_world example_env "alpha_sub\<lparr>SubRequest.Name := ''beta''\<rparr>"
      "listing_handler one_fails" "()" "owner_unsub\<lparr>UnsubRequest.Name := ''beta''\<rparr>"
      "''/spool''" "''beta''" Subscriber "[0, 1, 2, 0, 1, 2]"]
    unwatched_list_fails [of alpha_world example_env "alpha_sub\<lparr>SubRequest.Name := ''beta''\<rparr>"
      "listing_handler one_fails" "()" "owner_unsub\<lparr>UnsubRequest.Name := ''beta''\<rparr>"
      "''/spool''" "''beta''" Subscriber "[0, 1, 0, 1]"]
  by (simp add: alpha_sub_def owner_unsub_def)

section \<open>More claims about the list manager\<close>

lemma allocated_fresh:
  assumes "allocated s" "lists (lm s) = Some m"
  shows "nextp s \<notin> fmran' m"
  using assms by (auto simp add: allocated_def)

lemma allocated_lookup:
  assumes "allocated s" "lists (lm s) = Some m" "fmlookup m n = Some a"
  shows "a < nextp s"
  using assms by (auto simp add: allocated_def intro: fmran'I)

lemma fcard_fmdom_fmupd:
  assumes "fmlookup m n = None"
  shows "fcard (fmdom (fmupd n a m)) = Suc (fcard (fmdom m))"
proof -
  from assms have "n |\<notin>| fmdom m"
    by (simp add: fmdom_notI)
  then show ?thesis
    by (simp add: fcard_finsert_disjoint)
qed

text \<open>
  C6. On an initialised manager whose mutex is free and whose map holds allocated
  addresses only: for a name the map does not hold, the first \<open>AddList\<close> returns
  \<open>true\<close>, the map gains that one name (its size grows by one) and the lock it
  installs is at an address that no entry of the map had, newly made; the second
  \<open>AddList\<close> returns \<open>false\<close> and leaves the manager, the heap and so the lock of the
  name as they were. For a name the map holds, both calls return \<open>false\<close> and the lock
  of the name stays the one it was. And after \<open>RemoveList\<close> of a name, \<open>AddList\<close> of it
  installs a lock at an address different from the removed one. The first call
  returning \<open>true\<close> is the claim for a name that is absent, as the sentence of the
  specification on \<open>Add\<close> has it.
\<close>

theorem AddList_twice:
  assumes "free (mutex (lm s))" and "lists (lm s) = Some m" and "allocated s"
  shows "(fmlookup m name = None \<longrightarrow>
           (\<exists>s1 s2. AddList name s = Returns True s1
              \<and> lists (lm s1) = Some (fmupd name (nextp s) m)
              \<and> fcard (fmdom (fmupd name (nextp s) m)) = Suc (fcard (fmdom m))
              \<and> nextp s \<notin> fmran' m
              \<and> heap s1 (nextp s) = new_RWMutex
              \<and> AddList name s1 = Returns False s2
              \<and> lm s2 = lm s1 \<and> heap s2 = heap s1 \<and> nextp s2 = nextp s1
              \<and> index_lists name s2 = Some (nextp s)))
       \<and> (\<forall>a. fmlookup m name = Some a \<longrightarrow>
           (\<exists>s1 s2. AddList name s = Returns False s1
              \<and> AddList name s1 = Returns False s2
              \<and> lm s2 = lm s \<and> heap s2 = heap s \<and> nextp s2 = nextp s
              \<and> index_lists name s2 = Some a))
       \<and> (\<forall>a. fmlookup m name = Some a \<longrightarrow>
           (\<exists>s1 s2. RemoveList name s = Returns True s1
              \<and> index_lists name s1 = None
              \<and> AddList name s1 = Returns True s2
              \<and> index_lists name s2 = Some (nextp s)
              \<and> nextp s \<noteq> a
              \<and> heap s2 (nextp s) = new_RWMutex))"
proof (intro conjI allI impI)
  assume absent: "fmlookup m name = None"
  let ?s1 = "s\<lparr>lm := (lm s)\<lparr>lists := Some (fmupd name (nextp s) m)\<rparr>,
         heap := (heap s)(nextp s := new_RWMutex), nextp := Suc (nextp s),
         trace := trace s @ [EvLock Top, EvUnlock Top]\<rparr>"
  let ?s2 = "?s1\<lparr>trace := trace ?s1 @ [EvLock Top, EvUnlock Top]\<rparr>"
  have first: "AddList name s = Returns True ?s1"
    using assms(1,2) absent by (rule AddList_fresh)
  have "free (mutex (lm ?s1))" "lists (lm ?s1) = Some (fmupd name (nextp s) m)"
    "fmlookup (fmupd name (nextp s) m) name = Some (nextp s)"
    using assms(1) by simp_all
  then have second: "AddList name ?s1 = Returns False ?s2"
    by (rule AddList_present)
  have idx: "index_lists name ?s2 = Some (nextp s)"
    by (simp add: index_lists_def)
  have card: "fcard (fmdom (fmupd name (nextp s) m)) = Suc (fcard (fmdom m))"
    using absent by (rule fcard_fmdom_fmupd)
  have new: "nextp s \<notin> fmran' m"
    using assms(3,2) by (rule allocated_fresh)
  have rest: "lists (lm ?s1) = Some (fmupd name (nextp s) m)" "heap ?s1 (nextp s) = new_RWMutex"
    "lm ?s2 = lm ?s1" "heap ?s2 = heap ?s1" "nextp ?s2 = nextp ?s1"
    by simp_all
  from first second idx card new rest
  show "\<exists>s1 s2. AddList name s = Returns True s1
              \<and> lists (lm s1) = Some (fmupd name (nextp s) m)
              \<and> fcard (fmdom (fmupd name (nextp s) m)) = Suc (fcard (fmdom m))
              \<and> nextp s \<notin> fmran' m
              \<and> heap s1 (nextp s) = new_RWMutex
              \<and> AddList name s1 = Returns False s2
              \<and> lm s2 = lm s1 \<and> heap s2 = heap s1 \<and> nextp s2 = nextp s1
              \<and> index_lists name s2 = Some (nextp s)"
    by blast
next
  fix a
  assume present: "fmlookup m name = Some a"
  let ?s1 = "s\<lparr>trace := trace s @ [EvLock Top, EvUnlock Top]\<rparr>"
  let ?s2 = "?s1\<lparr>trace := trace ?s1 @ [EvLock Top, EvUnlock Top]\<rparr>"
  have first: "AddList name s = Returns False ?s1"
    using assms(1,2) present by (rule AddList_present)
  have "free (mutex (lm ?s1))" "lists (lm ?s1) = Some m"
    using assms(1,2) by simp_all
  then have second: "AddList name ?s1 = Returns False ?s2"
    using present by (rule AddList_present)
  have idx: "index_lists name ?s2 = Some a"
    using assms(2) present by (simp add: index_lists_def)
  have rest: "lm ?s2 = lm s" "heap ?s2 = heap s" "nextp ?s2 = nextp s"
    by simp_all
  from first second idx rest
  show "\<exists>s1 s2. AddList name s = Returns False s1
              \<and> AddList name s1 = Returns False s2
              \<and> lm s2 = lm s \<and> heap s2 = heap s \<and> nextp s2 = nextp s
              \<and> index_lists name s2 = Some a"
    by blast
next
  fix a
  assume present: "fmlookup m name = Some a"
  let ?s1 = "s\<lparr>lm := (lm s)\<lparr>lists := Some (fmdrop name m)\<rparr>,
         trace := trace s @ [EvLock Top, EvUnlock Top]\<rparr>"
  let ?s2 = "?s1\<lparr>lm := (lm ?s1)\<lparr>lists := Some (fmupd name (nextp ?s1) (fmdrop name m))\<rparr>,
         heap := (heap ?s1)(nextp ?s1 := new_RWMutex), nextp := Suc (nextp ?s1),
         trace := trace ?s1 @ [EvLock Top, EvUnlock Top]\<rparr>"
  have first: "RemoveList name s = Returns True ?s1"
    using assms(1,2) present by (rule RemoveList_present)
  have "free (mutex (lm ?s1))" "lists (lm ?s1) = Some (fmdrop name m)"
    "fmlookup (fmdrop name m) name = None"
    using assms(1) by simp_all
  then have second: "AddList name ?s1 = Returns True ?s2"
    by (rule AddList_fresh)
  have gone: "index_lists name ?s1 = None"
    by (simp add: index_lists_def)
  have again: "index_lists name ?s2 = Some (nextp s)"
    by (simp add: index_lists_def)
  have "a < nextp s"
    using assms(3,2) present by (rule allocated_lookup)
  then have differs: "nextp s \<noteq> a"
    by simp
  have rest: "heap ?s2 (nextp s) = new_RWMutex"
    by simp
  from first second gone again differs rest
  show "\<exists>s1 s2. RemoveList name s = Returns True s1
              \<and> index_lists name s1 = None
              \<and> AddList name s1 = Returns True s2
              \<and> index_lists name s2 = Some (nextp s)
              \<and> nextp s \<noteq> a
              \<and> heap s2 (nextp s) = new_RWMutex"
    by blast
qed

lemma example_allocated [simp]: "allocated alpha_world" "allocated empty_world"
  by (auto simp add: allocated_def alpha_world_def empty_world_def fresh_world_def
      fmlookup_ran'_iff split: if_splits)

lemma example_lists [simp]:
  "lists (lm alpha_world) = Some (fmupd ''/spool/alpha'' 0 fmempty)"
  "lists (lm empty_world) = Some fmempty"
  "nextp alpha_world = 1" "nextp empty_world = 0"
  by (simp_all add: alpha_world_def empty_world_def fresh_world_def)

theorem AddList_twice_witness:
  "(\<exists>s1 s2. AddList ''/spool/beta'' alpha_world = Returns True s1
      \<and> lists (lm s1) = Some (fmupd ''/spool/beta'' 1 (fmupd ''/spool/alpha'' 0 fmempty))
      \<and> AddList ''/spool/beta'' s1 = Returns False s2
      \<and> index_lists ''/spool/beta'' s2 = Some 1)
   \<and> (\<exists>s1 s2. RemoveList ''/spool/alpha'' alpha_world = Returns True s1
      \<and> AddList ''/spool/alpha'' s1 = Returns True s2
      \<and> index_lists ''/spool/alpha'' s2 = Some 1)"
  using AddList_twice [of alpha_world "fmupd ''/spool/alpha'' 0 fmempty" "''/spool/beta''"]
    AddList_twice [of alpha_world "fmupd ''/spool/alpha'' 0 fmempty" "''/spool/alpha''"]
  by simp blast

section \<open>More claims about the wrapper\<close>

lemma RemoveList_busy:
  assumes "\<not> free (mutex (lm s))"
  shows "RemoveList n s = Blocks s"
  using assms by (auto simp add: RemoveList_def lock_defs free_def)

text \<open>
  C4. \<open>MakeML\<close> calls the handler first and acquires no guard: in each case below
  the handler event is the first event added, and no lock of a list is taken and no
  release function called. When the handler returns an error, that result is returned
  and nothing but the log changes, whatever the locks are: the name is not registered.
  When the handler succeeds (on an initialised manager whose mutex is free), \<open>AddList\<close>
  registers \<open>listDir spool name\<close> with a new lock if the map does not hold it, and
  changes nothing but the log if it does.
\<close>

theorem MakeML_registers:
  "(\<forall>out e. Handler_MakeML H ctx spool name domain owner lang = (out, Some e) \<longrightarrow>
      Wrapper_MakeML E H ctx spool name domain owner lang s =
        Returns (out, Some e) (s\<lparr>trace := trace s @ [EvHandler (CallMakeML spool name)]\<rparr>))
   \<and> (\<forall>out m. Handler_MakeML H ctx spool name domain owner lang = (out, None)
         \<and> free (mutex (lm s)) \<and> lists (lm s) = Some m \<longrightarrow>
        (fmlookup m (listDir E spool name) = None \<longrightarrow>
           Wrapper_MakeML E H ctx spool name domain owner lang s =
             Returns (out, None)
               (s\<lparr>lm := (lm s)\<lparr>lists := Some (fmupd (listDir E spool name) (nextp s) m)\<rparr>,
                  heap := (heap s)(nextp s := new_RWMutex), nextp := Suc (nextp s),
                  trace := trace s @ [EvHandler (CallMakeML spool name), EvLock Top, EvUnlock Top]\<rparr>))
        \<and> (fmlookup m (listDir E spool name) \<noteq> None \<longrightarrow>
           Wrapper_MakeML E H ctx spool name domain owner lang s =
             Returns (out, None)
               (s\<lparr>trace := trace s @ [EvHandler (CallMakeML spool name), EvLock Top, EvUnlock Top]\<rparr>)))"
proof (intro conjI allI impI)
  fix out e
  assume "Handler_MakeML H ctx spool name domain owner lang = (out, Some e)"
  then show "Wrapper_MakeML E H ctx spool name domain owner lang s =
        Returns (out, Some e) (s\<lparr>trace := trace s @ [EvHandler (CallMakeML spool name)]\<rparr>)"
    by (simp add: Wrapper_MakeML_def emit_def)
next
  fix out m
  assume h: "Handler_MakeML H ctx spool name domain owner lang = (out, None)
         \<and> free (mutex (lm s)) \<and> lists (lm s) = Some m"
  let ?s1 = "emit (EvHandler (CallMakeML spool name)) s"
  from h have s1: "free (mutex (lm ?s1))" "lists (lm ?s1) = Some m"
    by (simp_all add: emit_def)
  {
    assume "fmlookup m (listDir E spool name) = None"
    with s1 have "AddList (listDir E spool name) ?s1 = Returns True
      (?s1\<lparr>lm := (lm ?s1)\<lparr>lists := Some (fmupd (listDir E spool name) (nextp ?s1) m)\<rparr>,
         heap := (heap ?s1)(nextp ?s1 := new_RWMutex), nextp := Suc (nextp ?s1),
         trace := trace ?s1 @ [EvLock Top, EvUnlock Top]\<rparr>)"
      by (rule AddList_fresh)
    with h show "Wrapper_MakeML E H ctx spool name domain owner lang s =
             Returns (out, None)
               (s\<lparr>lm := (lm s)\<lparr>lists := Some (fmupd (listDir E spool name) (nextp s) m)\<rparr>,
                  heap := (heap s)(nextp s := new_RWMutex), nextp := Suc (nextp s),
                  trace := trace s @ [EvHandler (CallMakeML spool name), EvLock Top, EvUnlock Top]\<rparr>)"
      by (simp add: Wrapper_MakeML_def emit_def)
  next
    assume "fmlookup m (listDir E spool name) \<noteq> None"
    then obtain a where "fmlookup m (listDir E spool name) = Some a"
      by auto
    with s1 have "AddList (listDir E spool name) ?s1 =
        Returns False (?s1\<lparr>trace := trace ?s1 @ [EvLock Top, EvUnlock Top]\<rparr>)"
      by (rule AddList_present)
    with h show "Wrapper_MakeML E H ctx spool name domain owner lang s =
             Returns (out, None)
               (s\<lparr>trace := trace s @ [EvHandler (CallMakeML spool name), EvLock Top, EvUnlock Top]\<rparr>)"
      by (simp add: Wrapper_MakeML_def emit_def)
  }
qed

theorem MakeML_registers_witness:
  "Wrapper_MakeML example_env failing_handler () ''/spool'' ''beta'' ''example.com'' ''o@example.com'' ''en'' alpha_world
     = Returns (''mlmmj-make-ml failed'', Some (Err ''exit 1''))
         (alpha_world\<lparr>trace := [EvHandler (CallMakeML ''/spool'' ''beta'')]\<rparr>)
   \<and> Wrapper_MakeML example_env (listing_handler one_fails) () ''/spool'' ''beta'' ''example.com'' ''o@example.com'' ''en'' alpha_world
     = Returns (''created'', None)
         (alpha_world\<lparr>lm := (lm alpha_world)\<lparr>lists := Some (fmupd ''/spool/beta'' 1 (fmupd ''/spool/alpha'' 0 fmempty))\<rparr>,
            heap := (heap alpha_world)(1 := new_RWMutex), nextp := 2,
            trace := [EvHandler (CallMakeML ''/spool'' ''beta''), EvLock Top, EvUnlock Top]\<rparr>)
   \<and> Wrapper_MakeML example_env (listing_handler one_fails) () ''/spool'' ''alpha'' ''example.com'' ''o@example.com'' ''en'' alpha_world
     = Returns (''created'', None)
         (alpha_world\<lparr>trace := [EvHandler (CallMakeML ''/spool'' ''alpha''), EvLock Top, EvUnlock Top]\<rparr>)"
  using MakeML_registers [of failing_handler "()" "''/spool''" "''beta''" "''example.com''" "''o@example.com''" "''en''" example_env alpha_world]
    MakeML_registers [of "listing_handler one_fails" "()" "''/spool''" "''beta''" "''example.com''" "''o@example.com''" "''en''" example_env alpha_world]
    MakeML_registers [of "listing_handler one_fails" "()" "''/spool''" "''alpha''" "''example.com''" "''o@example.com''" "''en''" example_env alpha_world]
  by (simp add: failing_handler_def listing_handler_def)

lemma GetArgs_invalid:
  assumes "UnsubRequest.Mode r = Owner \<or> UnsubRequest.Mode r = Moderator"
  shows "UnsubRequest_GetArgs E r =
    ([], Some (Err (''Invalid subscription type '' @ UserType_String (UnsubRequest.Mode r)
                      @ '' for unsubscription'')))"
  using assms by (auto simp add: UnsubRequest_GetArgs_def)

text \<open>
  C2, as amended. \<open>Unsub\<close> of the wrapper does not look at the mode: it acquires the
  write guard of the list first, as for any request. For a request whose mode is
  \<open>Owner\<close> or \<open>Moderator\<close>, with the handler that posts to the service: on a list the map
  holds (its lock free), the guard is acquired once, the handler is called, its
  \<open>GetArgs\<close> rejects the mode with the error of an invalid subscription type and
  nothing is posted to the service, and the guard is released; on a list the map does
  not hold the call returns \<open>UnwatchedList\<close> and the handler is not called.
\<close>

theorem Unsub_invalid_mode:
  assumes "UnsubRequest.Mode r = Owner \<or> UnsubRequest.Mode r = Moderator"
    and "Handler_Unsub H = (\<lambda>ctx r. fst (DockerHandler_Unsub E T ctx r))"
    and "\<not> writer (mutex (lm s))"
  shows "DockerHandler_Unsub E T ctx r =
           (([], Some (Err (''Invalid subscription type '' @ UserType_String (UnsubRequest.Mode r)
                             @ '' for unsubscription''))), [])
       \<and> (\<forall>a. index_lists (listDir E (UnsubRequest.Spool r) (UnsubRequest.Name r)) s = Some a
               \<and> free (heap s a) \<longrightarrow>
            Wrapper_Unsub E H ctx r s =
              Returns ([], Some (Err (''Invalid subscription type ''
                                       @ UserType_String (UnsubRequest.Mode r)
                                       @ '' for unsubscription'')))
                (s\<lparr>trace := trace s @ [EvRLock Top, EvLock (Res a), EvRUnlock Top,
                      EvHandler (CallUnsub (UnsubRequest.Spool r) (UnsubRequest.Name r)),
                      EvRelease, EvUnlock (Res a)]\<rparr>))
       \<and> (index_lists (listDir E (UnsubRequest.Spool r) (UnsubRequest.Name r)) s = None \<longrightarrow>
            Wrapper_Unsub E H ctx r s =
              Returns ([], Some UnwatchedList)
                (s\<lparr>trace := trace s @ [EvRLock Top, EvRUnlock Top, EvRelease]\<rparr>))"
proof (intro conjI allI impI)
  show post: "DockerHandler_Unsub E T ctx r =
           (([], Some (Err (''Invalid subscription type '' @ UserType_String (UnsubRequest.Mode r)
                             @ '' for unsubscription''))), [])"
    using assms(1) by (simp add: DockerHandler_Unsub_def GetArgs_invalid)
  fix a
  assume "index_lists (listDir E (UnsubRequest.Spool r) (UnsubRequest.Name r)) s = Some a
               \<and> free (heap s a)"
  with assms(3)
  have "Wrapper_Unsub E H ctx r s = Returns (Handler_Unsub H ctx r)
           (s\<lparr>trace := trace s @ [EvRLock Top, EvLock (Res a), EvRUnlock Top,
                 EvHandler (CallUnsub (UnsubRequest.Spool r) (UnsubRequest.Name r)),
                 EvRelease, EvUnlock (Res a)]\<rparr>)"
    by (simp add: Wrapper_Unsub_known)
  then show "Wrapper_Unsub E H ctx r s =
              Returns ([], Some (Err (''Invalid subscription type ''
                                       @ UserType_String (UnsubRequest.Mode r)
                                       @ '' for unsubscription'')))
                (s\<lparr>trace := trace s @ [EvRLock Top, EvLock (Res a), EvRUnlock Top,
                      EvHandler (CallUnsub (UnsubRequest.Spool r) (UnsubRequest.Name r)),
                      EvRelease, EvUnlock (Res a)]\<rparr>)"
    by (simp add: assms(2) post)
next
  assume "index_lists (listDir E (UnsubRequest.Spool r) (UnsubRequest.Name r)) s = None"
  with assms(3) show "Wrapper_Unsub E H ctx r s =
              Returns ([], Some UnwatchedList)
                (s\<lparr>trace := trace s @ [EvRLock Top, EvRUnlock Top, EvRelease]\<rparr>)"
    by (rule Wrapper_Unsub_unknown)
qed

theorem Unsub_invalid_mode_witness:
  "DockerHandler_Unsub example_env example_service () owner_unsub =
     (([], Some (Err ''Invalid subscription type Owner for unsubscription'')), [])
   \<and> Wrapper_Unsub example_env (docker_handler example_env example_service) () owner_unsub alpha_world =
       Returns ([], Some (Err ''Invalid subscription type Owner for unsubscription''))
         (alpha_world\<lparr>trace := [EvRLock Top, EvLock (Res 0), EvRUnlock Top,
            EvHandler (CallUnsub ''/spool'' ''alpha''), EvRelease, EvUnlock (Res 0)]\<rparr>)
   \<and> Wrapper_Unsub example_env (docker_handler example_env example_service) ()
         (owner_unsub\<lparr>UnsubRequest.Name := ''beta''\<rparr>) alpha_world =
       Returns ([], Some UnwatchedList)
         (alpha_world\<lparr>trace := [EvRLock Top, EvRUnlock Top, EvRelease]\<rparr>)"
  using Unsub_invalid_mode [of owner_unsub "docker_handler example_env example_service" example_env
      example_service alpha_world "()"]
    Unsub_invalid_mode [of "owner_unsub\<lparr>UnsubRequest.Name := ''beta''\<rparr>"
      "docker_handler example_env example_service" example_env example_service alpha_world "()"]
  by (simp add: owner_unsub_def docker_handler_def UserType_String_def Owner_def Subscriber_def
      Digest_def Nomail_def Moderator_def)

text \<open>
  C2 as stated fails: for the request \<open>owner_unsub\<close>, whose mode is \<open>Owner\<close>, on the
  list \<open>/spool/alpha\<close> that the map holds, the call takes the lock of the list: one
  acquisition, not none, and before the handler is called.
\<close>

theorem Unsub_owner_acquires_guard:
  "UnsubRequest.Mode owner_unsub = Owner
   \<and> length (filter is_list_lock (trace (final
        (Wrapper_Unsub example_env (docker_handler example_env example_service) ()
           owner_unsub alpha_world)))) = 1
   \<and> trace (final
        (Wrapper_Unsub example_env (docker_handler example_env example_service) ()
           owner_unsub alpha_world))
      = [EvRLock Top, EvLock (Res 0), EvRUnlock Top,
         EvHandler (CallUnsub ''/spool'' ''alpha''), EvRelease, EvUnlock (Res 0)]"
  by (simp add: Wrapper_Unsub_known owner_unsub_def)

section \<open>The span of the manager's mutex\<close>

text \<open>
  C9, as amended. \<open>ReadList\<close> and \<open>WriteList\<close> take the manager's mutex for reading
  before the lookup and give it back by a deferred unlock, that is when they return:
  for a name the map holds, the lock of the list is taken while the manager's mutex is
  held, and the unlock of the manager's mutex is the last event of the call. When
  they have returned, the manager's mutex is as it was before the call, so it is not
  held during the operation that follows. When the lock of the list is not
  available, the call waits in a state in which it holds the manager's mutex as a
  reader, and in that state \<open>AddList\<close> and \<open>RemoveList\<close> of every name wait too.
\<close>

theorem top_lock_span:
  assumes "\<not> writer (mutex (lm s))" and "index_lists name s = Some a"
  shows "(\<not> writer (heap s a) \<longrightarrow>
            ReadList name s = Returns (True, DoRUnlock a)
              (s\<lparr>heap := (heap s)(a := (heap s a)\<lparr>readers := Suc (readers (heap s a))\<rparr>),
                 trace := trace s @ [EvRLock Top, EvRLock (Res a), EvRUnlock Top]\<rparr>))
       \<and> (free (heap s a) \<longrightarrow>
            WriteList name s = Returns (True, DoUnlock a)
              (s\<lparr>heap := (heap s)(a := (heap s a)\<lparr>writer := True\<rparr>),
                 trace := trace s @ [EvRLock Top, EvLock (Res a), EvRUnlock Top]\<rparr>))
       \<and> (writer (heap s a) \<longrightarrow>
            (\<exists>w. ReadList name s = Blocks w
               \<and> readers (mutex (lm w)) = Suc (readers (mutex (lm s)))
               \<and> (\<forall>n. AddList n w = Blocks w \<and> RemoveList n w = Blocks w)))
       \<and> (\<not> free (heap s a) \<longrightarrow>
            (\<exists>w. WriteList name s = Blocks w
               \<and> readers (mutex (lm w)) = Suc (readers (mutex (lm s)))
               \<and> (\<forall>n. AddList n w = Blocks w \<and> RemoveList n w = Blocks w)))"
proof (intro conjI impI)
  assume "\<not> writer (heap s a)"
  with assms show "ReadList name s = Returns (True, DoRUnlock a)
              (s\<lparr>heap := (heap s)(a := (heap s a)\<lparr>readers := Suc (readers (heap s a))\<rparr>),
                 trace := trace s @ [EvRLock Top, EvRLock (Res a), EvRUnlock Top]\<rparr>)"
    by (rule ReadList_known)
next
  assume "free (heap s a)"
  with assms show "WriteList name s = Returns (True, DoUnlock a)
              (s\<lparr>heap := (heap s)(a := (heap s a)\<lparr>writer := True\<rparr>),
                 trace := trace s @ [EvRLock Top, EvLock (Res a), EvRUnlock Top]\<rparr>)"
    by (rule WriteList_known)
next
  let ?w = "s\<lparr>lm := (lm s)\<lparr>mutex := (mutex (lm s))\<lparr>readers := Suc (readers (mutex (lm s)))\<rparr>\<rparr>,
        trace := trace s @ [EvRLock Top]\<rparr>"
  assume "writer (heap s a)"
  with assms have waits: "ReadList name s = Blocks ?w"
    by (rule ReadList_waits)
  have "\<not> free (mutex (lm ?w))"
    by (simp add: free_def)
  then have "\<forall>n. AddList n ?w = Blocks ?w \<and> RemoveList n ?w = Blocks ?w"
    by (simp add: AddList_busy RemoveList_busy)
  moreover have "readers (mutex (lm ?w)) = Suc (readers (mutex (lm s)))"
    by simp
  ultimately show "\<exists>w. ReadList name s = Blocks w
               \<and> readers (mutex (lm w)) = Suc (readers (mutex (lm s)))
               \<and> (\<forall>n. AddList n w = Blocks w \<and> RemoveList n w = Blocks w)"
    using waits by blast
next
  let ?w = "s\<lparr>lm := (lm s)\<lparr>mutex := (mutex (lm s))\<lparr>readers := Suc (readers (mutex (lm s)))\<rparr>\<rparr>,
        trace := trace s @ [EvRLock Top]\<rparr>"
  assume "\<not> free (heap s a)"
  with assms have waits: "WriteList name s = Blocks ?w"
    by (rule WriteList_waits)
  have "\<not> free (mutex (lm ?w))"
    by (simp add: free_def)
  then have "\<forall>n. AddList n ?w = Blocks ?w \<and> RemoveList n ?w = Blocks ?w"
    by (simp add: AddList_busy RemoveList_busy)
  moreover have "readers (mutex (lm ?w)) = Suc (readers (mutex (lm s)))"
    by simp
  ultimately show "\<exists>w. WriteList name s = Blocks w
               \<and> readers (mutex (lm w)) = Suc (readers (mutex (lm s)))
               \<and> (\<forall>n. AddList n w = Blocks w \<and> RemoveList n w = Blocks w)"
    using waits by blast
qed

lemma held_world_simps [simp]:
  "heap held_world 0 = \<lparr>writer = True, readers = 0\<rparr>"
  by (simp add: held_world_def)

theorem top_lock_span_witness:
  "WriteList ''/spool/alpha'' alpha_world = Returns (True, DoUnlock 0)
     (alpha_world\<lparr>heap := (heap alpha_world)(0 := new_RWMutex\<lparr>writer := True\<rparr>),
        trace := [EvRLock Top, EvLock (Res 0), EvRUnlock Top]\<rparr>)
   \<and> ReadList ''/spool/alpha'' alpha_world = Returns (True, DoRUnlock 0)
     (alpha_world\<lparr>heap := (heap alpha_world)(0 := new_RWMutex\<lparr>readers := Suc 0\<rparr>),
        trace := [EvRLock Top, EvRLock (Res 0), EvRUnlock Top]\<rparr>)
   \<and> (\<exists>w. ReadList ''/spool/alpha'' held_world = Blocks w
         \<and> readers (mutex (lm w)) = Suc 0
         \<and> (\<forall>n. AddList n w = Blocks w \<and> RemoveList n w = Blocks w))
   \<and> (\<exists>w. WriteList ''/spool/alpha'' held_world = Blocks w
         \<and> readers (mutex (lm w)) = Suc 0
         \<and> (\<forall>n. AddList n w = Blocks w \<and> RemoveList n w = Blocks w))"
  using top_lock_span [of alpha_world "''/spool/alpha''" 0]
    top_lock_span [of held_world "''/spool/alpha''" 0]
  by (simp add: free_def)

text \<open>
  C9 as stated fails: with the lock of \<open>/spool/alpha\<close> held by a writer,
  \<open>WriteList\<close> for that list waits while it holds the manager's mutex, and
  \<open>AddList\<close> and \<open>RemoveList\<close> of the other name \<open>/spool/beta\<close> wait in that state.
  Also when nothing waits, the manager's mutex is given back after the lock of the
  list has been taken, not before.
\<close>

theorem top_lock_held_while_waiting:
  "WriteList ''/spool/alpha'' held_world = Blocks waiting_world
   \<and> readers (mutex (lm waiting_world)) = 1
   \<and> AddList ''/spool/beta'' waiting_world = Blocks waiting_world
   \<and> RemoveList ''/spool/beta'' waiting_world = Blocks waiting_world
   \<and> trace (final (WriteList ''/spool/alpha'' alpha_world))
       = [EvRLock Top, EvLock (Res 0), EvRUnlock Top]"
proof -
  have w: "waiting_world =
      held_world\<lparr>lm := (lm held_world)\<lparr>mutex := (mutex (lm held_world))\<lparr>readers := Suc (readers (mutex (lm held_world)))\<rparr>\<rparr>,
        trace := trace held_world @ [EvRLock Top]\<rparr>"
    by (simp add: waiting_world_def new_RWMutex_def)
  have "WriteList ''/spool/alpha'' held_world = Blocks waiting_world"
    unfolding w by (rule WriteList_waits [where a = 0]) (simp_all add: free_def)
  moreover have busy: "\<not> free (mutex (lm waiting_world))"
    by (simp add: waiting_world_def free_def)
  moreover have "trace (final (WriteList ''/spool/alpha'' alpha_world))
       = [EvRLock Top, EvLock (Res 0), EvRUnlock Top]"
    by (simp add: WriteList_known)
  moreover have "readers (mutex (lm waiting_world)) = 1"
    by (simp add: waiting_world_def)
  ultimately show ?thesis
    by (simp add: AddList_busy RemoveList_busy)
qed

section \<open>Schedules and the fan-out\<close>

lemma step_order_snoc:
  "step_order k n (rev (sched @ [i])) =
     step_order k n (rev sched) @ (if i < n \<and> count_list sched i = k i then [i] else [])"
  by simp

lemma start_order_snoc:
  "start_order n (sched @ [i]) =
     start_order n sched @ (if i < n \<and> count_list sched i = 0 then [i] else [])"
  by (simp add: start_order_def)

lemma send_order_snoc:
  "send_order n (sched @ [i]) =
     send_order n sched @ (if i < n \<and> count_list sched i = 1 then [i] else [])"
  by (simp add: send_order_def)

lemma map_upt_update:
  assumes "i < n"
  shows "(map f [0..<n])[i := v] = map (f(i := v)) [0..<n]"
  using assms by (auto intro: nth_equalityI simp add: nth_list_update)

lemma map_upt_cong:
  assumes "\<And>j. j < n \<Longrightarrow> f j = g j"
  shows "map f [0..<n] = map g [0..<n]"
  using assms by simp

lemma fan_out_snoc:
  "fan_out H ctx spool name modes (sched @ [i]) s =
     fan_step H ctx spool name modes i (fan_out H ctx spool name modes sched s)"
  by (simp add: fan_out_def)

lemma fan_out_char:
  "fan_out H ctx spool name modes sched s =
     ((map (\<lambda>i. fetcher_after (snd (Handler_List H ctx spool name (modes ! i))) (count_list sched i))
         [0..<length modes],
       map (\<lambda>i. if count_list sched i = 0 then [] else fst (Handler_List H ctx spool name (modes ! i)))
         [0..<length modes],
       map (\<lambda>i. snd (Handler_List H ctx spool name (modes ! i))) (send_order (length modes) sched)),
      s\<lparr>trace := trace s @
           map (\<lambda>i. EvHandler (CallList spool name (modes ! i))) (start_order (length modes) sched)\<rparr>)"
proof (induction sched rule: rev_induct)
  case Nil
  show ?case
    by (simp add: fan_out_def fetcher_after_def start_order_def send_order_def
        map_replicate_const)
next
  case (snoc i sched)
  let ?n = "length modes"
  let ?e = "\<lambda>i. snd (Handler_List H ctx spool name (modes ! i))"
  let ?d = "\<lambda>i. fst (Handler_List H ctx spool name (modes ! i))"
  show ?case
  proof (cases "i < ?n")
    case False
    then have same: "\<And>j. j < ?n \<Longrightarrow> count_list (sched @ [i]) j = count_list sched j"
      by auto
    from False show ?thesis
      by (simp add: fan_out_snoc snoc.IH fan_step_def start_order_snoc send_order_snoc
          same cong: map_upt_cong)
  next
    case True
    have other: "\<And>j. j \<noteq> i \<Longrightarrow> count_list (sched @ [i]) j = count_list sched j"
      by auto
    consider (first) "count_list sched i = 0" | (second) "count_list sched i = 1"
      | (later) "2 \<le> count_list sched i"
      by linarith
    then show ?thesis
    proof cases
      case first
      with True show ?thesis
        by (cases "Handler_List H ctx spool name (modes ! i)")
          (auto simp add: fan_out_snoc snoc.IH fan_step_def start_order_snoc send_order_snoc
            fetcher_after_def emit_def map_upt_update intro!: map_upt_cong)
    next
      case second
      with True show ?thesis
        by (auto simp add: fan_out_snoc snoc.IH fan_step_def start_order_snoc send_order_snoc
            fetcher_after_def emit_def map_upt_update intro!: map_upt_cong)
    next
      case later
      with True show ?thesis
        by (auto simp add: fan_out_snoc snoc.IH fan_step_def start_order_snoc send_order_snoc
            fetcher_after_def emit_def map_upt_update intro!: map_upt_cong)
    qed
  qed
qed

lemma enough_iff: "enough k n sched = (\<forall>i<n. k i < count_list sched i)"
  by (auto simp add: enough_def list_all_iff)

lemma set_step_order:
  "set (step_order k n (rev sched)) = {i. i < n \<and> k i < count_list sched i}"
proof (induction sched rule: rev_induct)
  case Nil
  show ?case by simp
next
  case (snoc i sched)
  have "{j. j < n \<and> k j < count_list (sched @ [i]) j} =
        {j. j < n \<and> k j < count_list sched j}
          \<union> (if i < n \<and> count_list sched i = k i then {i} else {})"
    by auto
  with snoc.IH show ?case
    by (simp only: step_order_snoc set_append) auto
qed

lemma distinct_step_order: "distinct (step_order k n (rev sched))"
proof (induction sched rule: rev_induct)
  case Nil
  show ?case by simp
next
  case (snoc i sched)
  have "i \<notin> set (step_order k n (rev sched))" if "count_list sched i = k i"
    using that by (simp add: set_step_order)
  with snoc.IH show ?case
    by (simp only: step_order_snoc distinct_append split: if_splits) simp
qed

lemma length_step_order:
  "length (step_order k n (rev sched)) \<le> n"
  "(length (step_order k n (rev sched)) = n) = enough k n sched"
proof -
  let ?S = "{i. i < n \<and> k i < count_list sched i}"
  have len: "length (step_order k n (rev sched)) = card ?S"
    using distinct_card [OF distinct_step_order [of k n sched]]
    by (simp add: set_step_order)
  have sub: "?S \<subseteq> {..<n}"
    by auto
  then have "card ?S \<le> card {..<n}"
    by (intro card_mono) simp_all
  with len show "length (step_order k n (rev sched)) \<le> n"
    by simp
  have "(card ?S = n) = (?S = {..<n})"
  proof
    assume "card ?S = n"
    with sub show "?S = {..<n}"
      by (intro card_subset_eq) simp_all
  next
    assume "?S = {..<n}"
    then show "card ?S = n"
      by simp
  qed
  also have "\<dots> = enough k n sched"
    by (auto simp add: enough_iff)
  finally show "(length (step_order k n (rev sched)) = n) = enough k n sched"
    using len by simp
qed

lemma collect_errors_Some [simp]: "collect_errors (Some e) ch = Some e"
  by (induction ch) simp_all

lemma collect_errors_None: "collect_errors None ch = first_error ch"
  by (induction ch rule: first_error.induct) simp_all

lemma first_error_None: "(first_error ch = None) = (\<forall>x \<in> set ch. x = None)"
  by (induction ch rule: first_error.induct) simp_all

lemma first_error_mem: "first_error ch = Some e \<Longrightarrow> Some e \<in> set ch"
  by (induction ch rule: first_error.induct) simp_all

lemma first_error_only:
  assumes "x \<in> set ch" and "\<forall>y \<in> set ch. y = None \<or> y = x"
  shows "first_error ch = x"
proof (cases x)
  case None
  with assms(2) have "\<forall>y \<in> set ch. y = None"
    by simp
  with None show ?thesis
    by (simp add: first_error_None)
next
  case (Some e)
  from assms show ?thesis
    unfolding Some
  proof (induction ch rule: first_error.induct)
    case 1
    then show ?case by simp
  next
    case (2 ch)
    then show ?case by simp
  next
    case (3 e' ch)
    then show ?case by simp
  qed
qed
lemma send_order_length:
  "length (send_order n sched) \<le> n"
  "(length (send_order n sched) = n) = enough (\<lambda>_. 1) n sched"
  "\<not> enough (\<lambda>_. 1) n sched \<Longrightarrow> length (send_order n sched) < n"
  using length_step_order [of "\<lambda>_. 1" n sched]
  by (simp_all add: send_order_def)

lemma send_order_perm:
  assumes "enough (\<lambda>_. 1) n sched"
  shows "distinct (send_order n sched)" "set (send_order n sched) = {..<n}"
  using assms
  by (auto simp add: send_order_def distinct_step_order set_step_order enough_iff)

lemma start_order_perm:
  assumes "enough (\<lambda>_. 1) n sched"
  shows "distinct (start_order n sched)" "set (start_order n sched) = {..<n}"
  using assms
  by (auto simp add: start_order_def distinct_step_order set_step_order enough_iff
      intro: less_trans [OF zero_less_one])

lemma enough_counts:
  assumes "enough (\<lambda>_. 1) n sched" "i < n"
  shows "count_list sched i \<noteq> 0"
  using assms by (auto simp add: enough_iff)

lemma fan_error_None:
  assumes "enough (\<lambda>_. 1) (length modes) sched"
  shows "(fan_error H ctx spool name modes sched = None) =
         (\<forall>m \<in> set modes. snd (Handler_List H ctx spool name m) = None)"
proof -
  have "(\<forall>i \<in> set (send_order (length modes) sched).
            snd (Handler_List H ctx spool name (modes ! i)) = None)
        = (\<forall>m \<in> set modes. snd (Handler_List H ctx spool name m) = None)"
    unfolding send_order_perm [OF assms] by (auto simp add: all_set_conv_all_nth)
  then show ?thesis
    by (simp add: fan_error_def first_error_None)
qed

lemma fan_error_mem:
  assumes "fan_error H ctx spool name modes sched = Some e"
  shows "\<exists>m \<in> set modes. snd (Handler_List H ctx spool name m) = Some e"
proof -
  from assms have "Some e \<in> set (map (\<lambda>i. snd (Handler_List H ctx spool name (modes ! i)))
                    (send_order (length modes) sched))"
    unfolding fan_error_def by (rule first_error_mem)
  then obtain i where "i \<in> set (send_order (length modes) sched)"
    and e: "snd (Handler_List H ctx spool name (modes ! i)) = Some e"
    by auto
  then have "i < length modes"
    by (simp add: send_order_def set_step_order)
  then have "modes ! i \<in> set modes"
    by (rule nth_mem)
  with e show ?thesis
    by blast
qed

lemma fan_error_only:
  assumes "enough (\<lambda>_. 1) (length modes) sched" and "i < length modes"
    and "\<forall>j < length modes. j \<noteq> i \<longrightarrow> snd (Handler_List H ctx spool name (modes ! j)) = None"
  shows "fan_error H ctx spool name modes sched = snd (Handler_List H ctx spool name (modes ! i))"
  unfolding fan_error_def
proof (rule first_error_only)
  from assms(2) have "i \<in> set (send_order (length modes) sched)"
    by (simp add: send_order_perm [OF assms(1)])
  then show "snd (Handler_List H ctx spool name (modes ! i))
      \<in> set (map (\<lambda>i. snd (Handler_List H ctx spool name (modes ! i))) (send_order (length modes) sched))"
    by simp
  show "\<forall>y \<in> set (map (\<lambda>i. snd (Handler_List H ctx spool name (modes ! i))) (send_order (length modes) sched)).
          y = None \<or> y = snd (Handler_List H ctx spool name (modes ! i))"
  proof
    fix y
    assume "y \<in> set (map (\<lambda>i. snd (Handler_List H ctx spool name (modes ! i))) (send_order (length modes) sched))"
    then obtain j where j: "j \<in> set (send_order (length modes) sched)"
      and y: "y = snd (Handler_List H ctx spool name (modes ! j))"
      by auto
    from j have "j < length modes"
      by (simp add: send_order_def set_step_order)
    with assms(3) y show "y = None \<or> y = snd (Handler_List H ctx spool name (modes ! i))"
      by (cases "j = i") simp_all
  qed
qed

lemma fan_error_first:
  assumes "send_order (length modes) sched = i # rest"
    and "snd (Handler_List H ctx spool name (modes ! i)) = Some e"
  shows "fan_error H ctx spool name modes sched = Some e"
  using assms by (simp add: fan_error_def)

lemma Wrapper_ListAllMembers_known:
  assumes "\<not> writer (mutex (lm s))" "index_lists (listDir E spool name) s = Some a"
    "\<not> writer (heap s a)" "enough (\<lambda>_. 1) 3 sched"
  shows "Wrapper_ListAllMembers E H ctx spool name sched s =
     Returns ((fst (Handler_List H ctx spool name Subscriber),
               fst (Handler_List H ctx spool name Digest),
               fst (Handler_List H ctx spool name Nomail)),
              fan_error H ctx spool name [Subscriber, Digest, Nomail] sched)
       (s\<lparr>trace := trace s @ [EvRLock Top, EvRLock (Res a), EvRUnlock Top]
            @ fan_calls spool name [Subscriber, Digest, Nomail] sched
            @ [EvRelease, EvRUnlock (Res a)]\<rparr>)"
proof -
  have len: "length (send_order 3 sched) = 3"
    using assms(4) by (simp add: send_order_length)
  have c: "count_list sched 0 \<noteq> 0" "count_list sched (Suc 0) \<noteq> 0" "count_list sched 2 \<noteq> 0"
    using assms(4) by (simp_all add: enough_counts)
  show ?thesis
    using assms(1-3) len c
    by (simp add: Wrapper_ListAllMembers_def ReadList_known fan_out_char
        collect_errors_None fan_error_def fan_calls_def call_release_def lock_defs
        numeral_3_eq_3 numeral_2_eq_2)
qed

lemma Wrapper_ListAllMembers_waits:
  assumes "\<not> writer (mutex (lm s))" "index_lists (listDir E spool name) s = Some a"
    "\<not> writer (heap s a)" "\<not> enough (\<lambda>_. 1) 3 sched"
  shows "Wrapper_ListAllMembers E H ctx spool name sched s =
     Blocks
       (s\<lparr>heap := (heap s)(a := (heap s a)\<lparr>readers := Suc (readers (heap s a))\<rparr>),
          trace := trace s @ [EvRLock Top, EvRLock (Res a), EvRUnlock Top]
            @ fan_calls spool name [Subscriber, Digest, Nomail] sched\<rparr>)"
proof -
  have len: "length (send_order 3 sched) < 3"
    using assms(4) by (simp add: send_order_length)
  show ?thesis
    using assms(1-3) len
    by (simp add: Wrapper_ListAllMembers_def ReadList_known fan_out_char
        fan_calls_def numeral_3_eq_3 numeral_2_eq_2)
qed

lemma Wrapper_ListAllControllers_known:
  assumes "\<not> writer (mutex (lm s))" "index_lists (listDir E spool name) s = Some a"
    "\<not> writer (heap s a)" "enough (\<lambda>_. 1) 2 sched"
  shows "Wrapper_ListAllControllers E H ctx spool name sched s =
     Returns ((fst (Handler_List H ctx spool name Owner),
               fst (Handler_List H ctx spool name Moderator)),
              fan_error H ctx spool name [Owner, Moderator] sched)
       (s\<lparr>trace := trace s @ [EvRLock Top, EvRLock (Res a), EvRUnlock Top]
            @ fan_calls spool name [Owner, Moderator] sched
            @ [EvRelease, EvRUnlock (Res a)]\<rparr>)"
proof -
  have len: "length (send_order 2 sched) = 2"
    using assms(4) by (simp add: send_order_length)
  have c: "count_list sched 0 \<noteq> 0" "count_list sched (Suc 0) \<noteq> 0"
    using assms(4) by (simp_all add: enough_counts)
  show ?thesis
    using assms(1-3) len c
    by (simp add: Wrapper_ListAllControllers_def ReadList_known fan_out_char
        collect_errors_None fan_error_def fan_calls_def call_release_def lock_defs
        numeral_2_eq_2)
qed

lemma Wrapper_ListAllControllers_waits:
  assumes "\<not> writer (mutex (lm s))" "index_lists (listDir E spool name) s = Some a"
    "\<not> writer (heap s a)" "\<not> enough (\<lambda>_. 1) 2 sched"
  shows "Wrapper_ListAllControllers E H ctx spool name sched s =
     Blocks
       (s\<lparr>heap := (heap s)(a := (heap s a)\<lparr>readers := Suc (readers (heap s a))\<rparr>),
          trace := trace s @ [EvRLock Top, EvRLock (Res a), EvRUnlock Top]
            @ fan_calls spool name [Owner, Moderator] sched\<rparr>)"
proof -
  have len: "length (send_order 2 sched) < 2"
    using assms(4) by (simp add: send_order_length)
  show ?thesis
    using assms(1-3) len
    by (simp add: Wrapper_ListAllControllers_def ReadList_known fan_out_char
        fan_calls_def numeral_2_eq_2)
qed

section \<open>Claims about the fan-out\<close>

text \<open>
  C3, as amended. On a list the map holds, whose lock no writer has,
  \<open>ListAllMembers\<close> (over Subscriber, Digest, Nomail) and \<open>ListAllControllers\<close> (over
  Owner, Moderator) return exactly when the schedule gives every fetcher its two steps,
  and wait with the read guard held as long as it does not. When they return, each
  result is the data the handler gave for its category, whatever the other calls gave,
  and the error is \<open>fan_error\<close>: the first error that is not nil in the order in which
  the fetchers sent, which is the order of the schedule and not that of the
  categories. Under such a schedule every fetcher calls the handler once and sends
  once; the error is nil exactly when every call gave nil; when one call alone fails
  its error is the one returned; an error returned is the error of one of the calls;
  and when the first sender failed, its error is the one returned. In the receiving
  loop an error once captured stays: later values, nil or not, do not replace it.
\<close>

theorem fan_out_reports:
  assumes "\<not> writer (mutex (lm s))" and "index_lists (listDir E spool name) s = Some a"
    and "\<not> writer (heap s a)"
  shows "(enough (\<lambda>_. 1) 3 sched \<longrightarrow>
            Wrapper_ListAllMembers E H ctx spool name sched s =
              Returns ((fst (Handler_List H ctx spool name Subscriber),
                        fst (Handler_List H ctx spool name Digest),
                        fst (Handler_List H ctx spool name Nomail)),
                       fan_error H ctx spool name [Subscriber, Digest, Nomail] sched)
                (s\<lparr>trace := trace s @ [EvRLock Top, EvRLock (Res a), EvRUnlock Top]
                     @ fan_calls spool name [Subscriber, Digest, Nomail] sched
                     @ [EvRelease, EvRUnlock (Res a)]\<rparr>))
       \<and> (\<not> enough (\<lambda>_. 1) 3 sched \<longrightarrow>
            Wrapper_ListAllMembers E H ctx spool name sched s =
              Blocks
                (s\<lparr>heap := (heap s)(a := (heap s a)\<lparr>readers := Suc (readers (heap s a))\<rparr>),
                   trace := trace s @ [EvRLock Top, EvRLock (Res a), EvRUnlock Top]
                     @ fan_calls spool name [Subscriber, Digest, Nomail] sched\<rparr>))
       \<and> (enough (\<lambda>_. 1) 2 sched \<longrightarrow>
            Wrapper_ListAllControllers E H ctx spool name sched s =
              Returns ((fst (Handler_List H ctx spool name Owner),
                        fst (Handler_List H ctx spool name Moderator)),
                       fan_error H ctx spool name [Owner, Moderator] sched)
                (s\<lparr>trace := trace s @ [EvRLock Top, EvRLock (Res a), EvRUnlock Top]
                     @ fan_calls spool name [Owner, Moderator] sched
                     @ [EvRelease, EvRUnlock (Res a)]\<rparr>))
       \<and> (\<not> enough (\<lambda>_. 1) 2 sched \<longrightarrow>
            Wrapper_ListAllControllers E H ctx spool name sched s =
              Blocks
                (s\<lparr>heap := (heap s)(a := (heap s a)\<lparr>readers := Suc (readers (heap s a))\<rparr>),
                   trace := trace s @ [EvRLock Top, EvRLock (Res a), EvRUnlock Top]
                     @ fan_calls spool name [Owner, Moderator] sched\<rparr>))
       \<and> (\<forall>modes. enough (\<lambda>_. 1) (length modes) sched \<longrightarrow>
            distinct (send_order (length modes) sched)
            \<and> set (send_order (length modes) sched) = {..<length modes}
            \<and> distinct (start_order (length modes) sched)
            \<and> set (start_order (length modes) sched) = {..<length modes}
            \<and> ((fan_error H ctx spool name modes sched = None) =
                 (\<forall>m \<in> set modes. snd (Handler_List H ctx spool name m) = None))
            \<and> (\<forall>i < length modes.
                 (\<forall>j < length modes. j \<noteq> i \<longrightarrow>
                    snd (Handler_List H ctx spool name (modes ! j)) = None) \<longrightarrow>
                 fan_error H ctx spool name modes sched =
                   snd (Handler_List H ctx spool name (modes ! i))))
       \<and> (\<forall>modes e. fan_error H ctx spool name modes sched = Some e \<longrightarrow>
            (\<exists>m \<in> set modes. snd (Handler_List H ctx spool name m) = Some e))
       \<and> (\<forall>modes i rest e. send_order (length modes) sched = i # rest
              \<and> snd (Handler_List H ctx spool name (modes ! i)) = Some e \<longrightarrow>
            fan_error H ctx spool name modes sched = Some e)
       \<and> (\<forall>e ch. collect_errors (Some e) ch = Some e)
       \<and> (\<forall>ch. collect_errors None ch = first_error ch)"
proof (intro conjI allI impI)
  fix modes :: "UserType list"
  assume en: "enough (\<lambda>_. 1) (length modes) sched"
  show "distinct (send_order (length modes) sched)"
    "set (send_order (length modes) sched) = {..<length modes}"
    using en by (rule send_order_perm)+
  show "distinct (start_order (length modes) sched)"
    "set (start_order (length modes) sched) = {..<length modes}"
    using en by (rule start_order_perm)+
  show "(fan_error H ctx spool name modes sched = None) =
                 (\<forall>m \<in> set modes. snd (Handler_List H ctx spool name m) = None)"
    using en by (rule fan_error_None)
  fix i
  assume "i < length modes"
    and "\<forall>j < length modes. j \<noteq> i \<longrightarrow> snd (Handler_List H ctx spool name (modes ! j)) = None"
  with en show "fan_error H ctx spool name modes sched =
                   snd (Handler_List H ctx spool name (modes ! i))"
    by (rule fan_error_only)
next
  fix modes :: "UserType list" and e
  assume "fan_error H ctx spool name modes sched = Some e"
  then show "\<exists>m \<in> set modes. snd (Handler_List H ctx spool name m) = Some e"
    by (rule fan_error_mem)
next
  fix modes :: "UserType list" and i rest e
  assume "send_order (length modes) sched = i # rest
              \<and> snd (Handler_List H ctx spool name (modes ! i)) = Some e"
  then show "fan_error H ctx spool name modes sched = Some e"
    by (simp add: fan_error_first)
qed (simp_all add: assms Wrapper_ListAllMembers_known Wrapper_ListAllMembers_waits
    Wrapper_ListAllControllers_known Wrapper_ListAllControllers_waits collect_errors_None)

lemma enough_example:
  "enough (\<lambda>_. 1) 3 [2, 2, 1, 0, 1, 0]" "enough (\<lambda>_. 1) 3 [1, 1, 0, 0, 2, 2]"
  "\<not> enough (\<lambda>_. 1) 3 [0, 0, 1, 1, 2]" "enough (\<lambda>_. 1) 2 [1, 0, 1, 0]"
  "enough (\<lambda>_. 1) 2 [1, 1, 0, 0]"
  by (simp_all add: enough_def upt_rec)

lemma listing_handler_List [simp]:
  "Handler_List (listing_handler f) ctx spool name mode = f mode"
  by (simp add: listing_handler_def)

theorem fan_out_reports_witness:
  "Wrapper_ListAllMembers example_env (listing_handler one_fails) () ''/spool'' ''alpha''
       [2, 2, 1, 0, 1, 0] alpha_world =
     Returns (([''a@example.com''], [], [''n@example.com'']), Some (Err ''digest failed''))
       (alpha_world\<lparr>trace := [EvRLock Top, EvRLock (Res 0), EvRUnlock Top,
          EvHandler (CallList ''/spool'' ''alpha'' Nomail),
          EvHandler (CallList ''/spool'' ''alpha'' Digest),
          EvHandler (CallList ''/spool'' ''alpha'' Subscriber),
          EvRelease, EvRUnlock (Res 0)]\<rparr>)
   \<and> Wrapper_ListAllMembers example_env (listing_handler one_fails) () ''/spool'' ''alpha''
       [0, 0, 1, 1, 2] alpha_world =
     Blocks
       (alpha_world\<lparr>heap := (heap alpha_world)(0 := new_RWMutex\<lparr>readers := Suc 0\<rparr>),
          trace := [EvRLock Top, EvRLock (Res 0), EvRUnlock Top,
            EvHandler (CallList ''/spool'' ''alpha'' Subscriber),
            EvHandler (CallList ''/spool'' ''alpha'' Digest),
            EvHandler (CallList ''/spool'' ''alpha'' Nomail)]\<rparr>)
   \<and> Wrapper_ListAllControllers example_env (listing_handler two_fail) () ''/spool'' ''alpha''
       [1, 0, 1, 0] alpha_world =
     Returns (([], []), Some (Err ''moderator failed''))
       (alpha_world\<lparr>trace := [EvRLock Top, EvRLock (Res 0), EvRUnlock Top,
          EvHandler (CallList ''/spool'' ''alpha'' Moderator),
          EvHandler (CallList ''/spool'' ''alpha'' Owner),
          EvRelease, EvRUnlock (Res 0)]\<rparr>)"
  using fan_out_reports [of alpha_world example_env "''/spool''" "''alpha''" 0 "[2, 2, 1, 0, 1, 0]"
      "listing_handler one_fails" "()", THEN conjunct1]
    fan_out_reports [of alpha_world example_env "''/spool''" "''alpha''" 0 "[0, 0, 1, 1, 2]"
      "listing_handler one_fails" "()", THEN conjunct2, THEN conjunct1]
    fan_out_reports [of alpha_world example_env "''/spool''" "''alpha''" 0 "[1, 0, 1, 0]"
      "listing_handler two_fail" "()", THEN conjunct2, THEN conjunct2, THEN conjunct1]
    enough_example
  by (simp add: fan_error_def fan_calls_def send_order_def start_order_def one_fails_def
      two_fail_def Subscriber_def Digest_def Nomail_def Owner_def Moderator_def)

text \<open>
  C3 as stated fails: with a handler whose Subscriber and Digest calls both fail, and
  a schedule in which the Digest fetcher sends first, \<open>ListAllMembers\<close> returns the
  error of Digest, not that of Subscriber, the leftmost failing category.
\<close>

theorem fan_out_order_of_sends:
  "snd (Handler_List (listing_handler two_fail) () ''/spool'' ''alpha'' Subscriber)
     = Some (Err ''subscriber failed'')
   \<and> snd (Handler_List (listing_handler two_fail) () ''/spool'' ''alpha'' Digest)
     = Some (Err ''digest failed'')
   \<and> Wrapper_ListAllMembers example_env (listing_handler two_fail) () ''/spool'' ''alpha''
       [1, 1, 0, 0, 2, 2] alpha_world =
     Returns (([], [], [''n@example.com'']), Some (Err ''digest failed''))
       (alpha_world\<lparr>trace := [EvRLock Top, EvRLock (Res 0), EvRUnlock Top,
          EvHandler (CallList ''/spool'' ''alpha'' Digest),
          EvHandler (CallList ''/spool'' ''alpha'' Subscriber),
          EvHandler (CallList ''/spool'' ''alpha'' Nomail),
          EvRelease, EvRUnlock (Res 0)]\<rparr>)"
  using enough_example
  by (simp add: Wrapper_ListAllMembers_known fan_error_def fan_calls_def send_order_def
      start_order_def two_fail_def Subscriber_def Digest_def Nomail_def Owner_def Moderator_def)

section \<open>Release of the guard\<close>

lemma fan_calls_quiet [simp]:
  "count_list (fan_calls spool name modes sched) EvRelease = 0"
  "filter is_list_unlock (fan_calls spool name modes sched) = []"
  by (simp_all add: fan_calls_def count_list_0_iff filter_empty_conv image_iff)

lemma released_onceI:
  assumes "out = Returns v (s\<lparr>trace := trace s @ evs\<rparr>)"
    and "count_list evs EvRelease = 1" and "filter is_list_unlock evs = unlocks"
  shows "released_once s unlocks out"
  using assms unfolding released_once_def by blast

lemma Wrapper_Sub_released:
  assumes "\<not> writer (mutex (lm s))"
    and "can_lock s (index_lists (listDir E (SubRequest.Spool r) (SubRequest.Name r)) s)"
  shows "released_once s
           (unlocks_of EvUnlock (index_lists (listDir E (SubRequest.Spool r) (SubRequest.Name r)) s))
           (Wrapper_Sub E H ctx r s)"
proof (cases "index_lists (listDir E (SubRequest.Spool r) (SubRequest.Name r)) s")
  case None
  show ?thesis
    by (rule released_onceI, rule Wrapper_Sub_unknown [OF assms(1) None])
      (simp_all add: None unlocks_of_def)
next
  case (Some a)
  with assms(2) have f: "free (heap s a)"
    by (simp add: can_lock_def)
  show ?thesis
    by (rule released_onceI, rule Wrapper_Sub_known [OF assms(1) Some f])
      (simp_all add: Some unlocks_of_def)
qed

lemma Wrapper_Unsub_released:
  assumes "\<not> writer (mutex (lm s))"
    and "can_lock s (index_lists (listDir E (UnsubRequest.Spool r) (UnsubRequest.Name r)) s)"
  shows "released_once s
           (unlocks_of EvUnlock (index_lists (listDir E (UnsubRequest.Spool r) (UnsubRequest.Name r)) s))
           (Wrapper_Unsub E H ctx r s)"
proof (cases "index_lists (listDir E (UnsubRequest.Spool r) (UnsubRequest.Name r)) s")
  case None
  show ?thesis
    by (rule released_onceI, rule Wrapper_Unsub_unknown [OF assms(1) None])
      (simp_all add: None unlocks_of_def)
next
  case (Some a)
  with assms(2) have f: "free (heap s a)"
    by (simp add: can_lock_def)
  show ?thesis
    by (rule released_onceI, rule Wrapper_Unsub_known [OF assms(1) Some f])
      (simp_all add: Some unlocks_of_def)
qed

lemma Wrapper_List_released:
  assumes "\<not> writer (mutex (lm s))"
    and "can_rlock s (index_lists (listDir E spool name) s)"
  shows "released_once s (unlocks_of EvRUnlock (index_lists (listDir E spool name) s))
           (Wrapper_List E H ctx spool name mode s)"
proof (cases "index_lists (listDir E spool name) s")
  case None
  show ?thesis
    by (rule released_onceI, rule Wrapper_List_unknown [OF assms(1) None])
      (simp_all add: None unlocks_of_def)
next
  case (Some a)
  with assms(2) have f: "\<not> writer (heap s a)"
    by (simp add: can_rlock_def)
  show ?thesis
    by (rule released_onceI, rule Wrapper_List_known [OF assms(1) Some f])
      (simp_all add: Some unlocks_of_def)
qed

lemma Wrapper_Count_released:
  assumes "\<not> writer (mutex (lm s))"
    and "can_rlock s (index_lists (listDir E spool name) s)"
  shows "released_once s (unlocks_of EvRUnlock (index_lists (listDir E spool name) s))
           (Wrapper_Count E H ctx spool name mode s)"
proof (cases "index_lists (listDir E spool name) s")
  case None
  show ?thesis
    by (rule released_onceI, rule Wrapper_Count_unknown [OF assms(1) None])
      (simp_all add: None unlocks_of_def)
next
  case (Some a)
  with assms(2) have f: "\<not> writer (heap s a)"
    by (simp add: can_rlock_def)
  show ?thesis
    by (rule released_onceI, rule Wrapper_Count_known [OF assms(1) Some f])
      (simp_all add: Some unlocks_of_def)
qed

lemma Wrapper_ListAllMembers_released:
  assumes "\<not> writer (mutex (lm s))"
    and "can_rlock s (index_lists (listDir E spool name) s)"
    and "index_lists (listDir E spool name) s = None \<or> enough (\<lambda>_. 1) 3 sched"
  shows "released_once s (unlocks_of EvRUnlock (index_lists (listDir E spool name) s))
           (Wrapper_ListAllMembers E H ctx spool name sched s)"
proof (cases "index_lists (listDir E spool name) s")
  case None
  show ?thesis
    by (rule released_onceI, rule Wrapper_ListAllMembers_unknown [OF assms(1) None])
      (simp_all add: None unlocks_of_def)
next
  case (Some a)
  with assms(2,3) have f: "\<not> writer (heap s a)" "enough (\<lambda>_. 1) 3 sched"
    by (simp_all add: can_rlock_def)
  show ?thesis
    by (rule released_onceI, rule Wrapper_ListAllMembers_known [OF assms(1) Some f])
      (simp_all add: Some unlocks_of_def)
qed

lemma Wrapper_ListAllControllers_released:
  assumes "\<not> writer (mutex (lm s))"
    and "can_rlock s (index_lists (listDir E spool name) s)"
    and "index_lists (listDir E spool name) s = None \<or> enough (\<lambda>_. 1) 2 sched"
  shows "released_once s (unlocks_of EvRUnlock (index_lists (listDir E spool name) s))
           (Wrapper_ListAllControllers E H ctx spool name sched s)"
proof (cases "index_lists (listDir E spool name) s")
  case None
  show ?thesis
    by (rule released_onceI, rule Wrapper_ListAllControllers_unknown [OF assms(1) None])
      (simp_all add: None unlocks_of_def)
next
  case (Some a)
  with assms(2,3) have f: "\<not> writer (heap s a)" "enough (\<lambda>_. 1) 2 sched"
    by (simp_all add: can_rlock_def)
  show ?thesis
    by (rule released_onceI, rule Wrapper_ListAllControllers_known [OF assms(1) Some f])
      (simp_all add: Some unlocks_of_def)
qed

lemma release_after_ReadList:
  assumes "\<not> writer (mutex (lm s))" "index_lists name s = Some a" "\<not> writer (heap s a)"
  shows "\<exists>s1. ReadList name s = Returns (True, DoRUnlock a) s1
          \<and> call_release (DoRUnlock a) s1 =
              Returns () (s\<lparr>trace := trace s @ [EvRLock Top, EvRLock (Res a), EvRUnlock Top,
                                 EvRelease, EvRUnlock (Res a)]\<rparr>)"
  using assms by (simp add: ReadList_known call_release_def lock_defs)

lemma release_after_WriteList:
  assumes "\<not> writer (mutex (lm s))" "index_lists name s = Some a" "free (heap s a)"
  shows "\<exists>s1. WriteList name s = Returns (True, DoUnlock a) s1
          \<and> call_release (DoUnlock a) s1 =
              Returns () (s\<lparr>trace := trace s @ [EvRLock Top, EvLock (Res a), EvRUnlock Top,
                                 EvRelease, EvUnlock (Res a)]\<rparr>)"
  using assms by (simp add: WriteList_known call_release_def lock_defs)
text \<open>
  C8. Each of \<open>Sub\<close>, \<open>Unsub\<close>, \<open>List\<close>, \<open>Count\<close>, \<open>ListAllMembers\<close> and
  \<open>ListAllControllers\<close>, when the manager's mutex is not held by a writer and the lock
  of the list (if the map holds the name) can be taken, and for the two fan-outs on a
  known list when the schedule lets every fetcher finish, returns; it leaves the state
  it found with events added to the log; among those events the release function is
  called exactly once, whatever the handler returned (data, an error, the error of a
  cancelled context) and also when the list is unknown; and the unlocks of locks of
  lists among them are exactly the matching one: \<open>Unlock\<close> of the list's lock after a
  write guard, \<open>RUnlock\<close> after a read guard, none for an unknown list. And for a
  known name the function that \<open>ReadList\<close> or \<open>WriteList\<close> returns, called once, does
  the matching unlock once and leaves every lock as it was before the acquisition.
\<close>

theorem guard_released_once:
  assumes "\<not> writer (mutex (lm s))"
  shows "(can_lock s (index_lists (listDir E (SubRequest.Spool r) (SubRequest.Name r)) s) \<longrightarrow>
            released_once s
              (unlocks_of EvUnlock (index_lists (listDir E (SubRequest.Spool r) (SubRequest.Name r)) s))
              (Wrapper_Sub E H ctx r s))
       \<and> (can_lock s (index_lists (listDir E (UnsubRequest.Spool u) (UnsubRequest.Name u)) s) \<longrightarrow>
            released_once s
              (unlocks_of EvUnlock (index_lists (listDir E (UnsubRequest.Spool u) (UnsubRequest.Name u)) s))
              (Wrapper_Unsub E H ctx u s))
       \<and> (can_rlock s (index_lists (listDir E spool name) s) \<longrightarrow>
            released_once s (unlocks_of EvRUnlock (index_lists (listDir E spool name) s))
              (Wrapper_List E H ctx spool name mode s)
            \<and> released_once s (unlocks_of EvRUnlock (index_lists (listDir E spool name) s))
              (Wrapper_Count E H ctx spool name mode s)
            \<and> (index_lists (listDir E spool name) s = None \<or> enough (\<lambda>_. 1) 3 sched \<longrightarrow>
                 released_once s (unlocks_of EvRUnlock (index_lists (listDir E spool name) s))
                   (Wrapper_ListAllMembers E H ctx spool name sched s))
            \<and> (index_lists (listDir E spool name) s = None \<or> enough (\<lambda>_. 1) 2 sched \<longrightarrow>
                 released_once s (unlocks_of EvRUnlock (index_lists (listDir E spool name) s))
                   (Wrapper_ListAllControllers E H ctx spool name sched s)))
       \<and> (\<forall>n a. index_lists n s = Some a \<and> \<not> writer (heap s a) \<longrightarrow>
            (\<exists>s1. ReadList n s = Returns (True, DoRUnlock a) s1
               \<and> call_release (DoRUnlock a) s1 =
                   Returns () (s\<lparr>trace := trace s @ [EvRLock Top, EvRLock (Res a), EvRUnlock Top,
                                      EvRelease, EvRUnlock (Res a)]\<rparr>)))
       \<and> (\<forall>n a. index_lists n s = Some a \<and> free (heap s a) \<longrightarrow>
            (\<exists>s1. WriteList n s = Returns (True, DoUnlock a) s1
               \<and> call_release (DoUnlock a) s1 =
                   Returns () (s\<lparr>trace := trace s @ [EvRLock Top, EvLock (Res a), EvRUnlock Top,
                                      EvRelease, EvUnlock (Res a)]\<rparr>)))"
  using assms
  by (intro conjI allI impI)
    (simp_all add: Wrapper_Sub_released Wrapper_Unsub_released Wrapper_List_released
      Wrapper_Count_released Wrapper_ListAllMembers_released Wrapper_ListAllControllers_released
      release_after_ReadList release_after_WriteList)

lemma can_lock_example [simp]:
  "can_lock alpha_world g" "can_rlock alpha_world g"
  by (simp_all add: can_lock_def can_rlock_def split: option.split)

theorem guard_released_once_witness:
  "released_once alpha_world [EvUnlock (Res 0)]
     (Wrapper_Sub example_env failing_handler () alpha_sub alpha_world)
   \<and> released_once alpha_world []
     (Wrapper_Unsub example_env failing_handler () (owner_unsub\<lparr>UnsubRequest.Name := ''beta''\<rparr>) alpha_world)
   \<and> released_once alpha_world [EvRUnlock (Res 0)]
     (Wrapper_List example_env failing_handler () ''/spool'' ''alpha'' Digest alpha_world)
   \<and> released_once alpha_world [EvRUnlock (Res 0)]
     (Wrapper_Count example_env failing_handler () ''/spool'' ''alpha'' Digest alpha_world)
   \<and> released_once alpha_world [EvRUnlock (Res 0)]
     (Wrapper_ListAllMembers example_env failing_handler () ''/spool'' ''alpha'' [2, 2, 1, 0, 1, 0] alpha_world)
   \<and> released_once alpha_world []
     (Wrapper_ListAllControllers example_env failing_handler () ''/spool'' ''beta'' [] alpha_world)"
  using guard_released_once [where s = alpha_world and E = example_env and r = alpha_sub
      and u = "owner_unsub\<lparr>UnsubRequest.Name := ''beta''\<rparr>" and spool = "''/spool''"
      and name = "''alpha''" and sched = "[2, 2, 1, 0, 1, 0]" and H = failing_handler
      and ctx = "()" and mode = Digest]
    guard_released_once [where s = alpha_world and E = example_env and r = alpha_sub
      and u = "owner_unsub\<lparr>UnsubRequest.Name := ''beta''\<rparr>" and spool = "''/spool''"
      and name = "''beta''" and sched = "[]" and H = failing_handler
      and ctx = "()" and mode = Digest]
    enough_example
  by (simp add: alpha_sub_def owner_unsub_def unlocks_of_def)

section \<open>Init under a schedule\<close>

lemma then_do_assoc:
  "then_do (then_do x f) g = then_do x (\<lambda>a s. then_do (f a s) g)"
  by (cases x) simp_all

lemma Init_run_snoc:
  "Init_run E (sched @ [i]) c s = then_do (Init_run E sched c s) (Init_step E i)"
proof (induction sched arbitrary: c s)
  case Nil
  show ?case
    by (cases "Init_step E i c s") simp_all
next
  case (Cons j sched)
  have "Init_run E (sched @ [i]) = (\<lambda>c s. then_do (Init_run E sched c s) (Init_step E i))"
    by (intro ext) (rule Cons.IH)
  then show ?case
    by (simp add: then_do_assoc)
qed

lemma fmran'_fmupd_subset: "fmran' (fmupd n a m) \<subseteq> insert a (fmran' m)"
  by (auto simp add: fmlookup_ran'_iff split: if_splits)

lemma fmdom'_present:
  assumes "fmlookup m n = Some a"
  shows "insert n (fmdom' m) = fmdom' m"
  using assms by (auto intro: fmdom'I)

lemma AddList_Init_inv:
  assumes "Init_inv lo S s"
  shows "\<exists>r s'. AddList n s = Returns r s' \<and> Init_inv lo (insert n S) s'"
proof -
  from assms obtain m where f: "free (mutex (lm s))" and lo: "lo \<le> nextp s"
    and m: "lists (lm s) = Some m" and dom: "fmdom' m = S"
    and ran: "\<forall>a \<in> fmran' m. lo \<le> a \<and> a < nextp s"
    unfolding Init_inv_def by blast
  show ?thesis
  proof (cases "fmlookup m n")
    case None
    let ?s' = "s\<lparr>lm := (lm s)\<lparr>lists := Some (fmupd n (nextp s) m)\<rparr>,
         heap := (heap s)(nextp s := new_RWMutex), nextp := Suc (nextp s),
         trace := trace s @ [EvLock Top, EvUnlock Top]\<rparr>"
    have "AddList n s = Returns True ?s'"
      using f m None by (rule AddList_fresh)
    moreover have "\<forall>a \<in> fmran' (fmupd n (nextp s) m). lo \<le> a \<and> a < Suc (nextp s)"
      using ran lo fmran'_fmupd_subset [of n "nextp s" m] by fastforce
    then have "Init_inv lo (insert n S) ?s'"
      using f lo dom by (simp add: Init_inv_def)
    ultimately show ?thesis
      by blast
  next
    case (Some a)
    let ?s' = "s\<lparr>trace := trace s @ [EvLock Top, EvUnlock Top]\<rparr>"
    have "AddList n s = Returns False ?s'"
      using f m Some by (rule AddList_present)
    moreover have "Init_inv lo (insert n S) ?s'"
      using f lo m dom ran fmdom'_present [OF Some] by (simp add: Init_inv_def)
    ultimately show ?thesis
      by blast
  qed
qed
lemma Init_goroutines_snoc:
  assumes "i < length spools"
  shows "Init_goroutines E spools (sched @ [i]) =
     (Init_goroutines E spools sched)[i := goroutine_after E (spools ! i) (Suc (count_list sched i))]"
  using assms
  by (auto simp add: Init_goroutines_def map_upt_update intro!: map_upt_cong)
lemma Init_goroutines_skip:
  assumes "\<not> i < length spools"
  shows "Init_goroutines E spools (sched @ [i]) = Init_goroutines E spools sched"
  using assms by (auto simp add: Init_goroutines_def intro!: map_upt_cong)
lemma Init_goroutines_nth:
  assumes "i < length spools"
  shows "Init_goroutines E spools sched ! i = goroutine_after E (spools ! i) (count_list sched i)"
  using assms by (simp add: Init_goroutines_def)
lemma Init_goroutines_length [simp]:
  "length (Init_goroutines E spools sched) = length spools"
  by (simp add: Init_goroutines_def)
lemma Init_chan_snoc:
  "Init_chan E spools (sched @ [i]) =
     Init_chan E spools sched @
       (if i < length spools \<and> count_list sched i = Suc (length (fst (GetLists E (spools ! i))))
        then [snd (GetLists E (spools ! i))] else [])"
  by (simp add: Init_chan_def finish_order_def Init_steps_def)
lemma UN_update_grow:
  assumes "i \<in> I" and "f i \<subseteq> B"
  shows "(\<Union>j \<in> I. (f(i := B)) j) = (\<Union>j \<in> I. f j) \<union> B"
proof (intro set_eqI iffI)
  fix x
  assume "x \<in> (\<Union>j \<in> I. (f(i := B)) j)"
  then obtain j where "j \<in> I" "x \<in> (f(i := B)) j"
    by blast
  then show "x \<in> (\<Union>j \<in> I. f j) \<union> B"
    by (cases "j = i") auto
next
  fix x
  assume "x \<in> (\<Union>j \<in> I. f j) \<union> B"
  then consider "x \<in> B" | j where "j \<in> I" "x \<in> f j"
    by blast
  then show "x \<in> (\<Union>j \<in> I. (f(i := B)) j)"
  proof cases
    case 1
    with assms(1) show ?thesis
      by (intro UN_I [of i]) simp_all
  next
    case 2
    with assms(2) show ?thesis
      by (intro UN_I [of j]) auto
  qed
qed

lemma installed_snoc:
  "installed E spools (sched @ [i]) =
     installed E spools sched \<union>
       (if i < length spools
        then listDir E (spools ! i) ` set (take (count_list sched i) (fst (GetLists E (spools ! i))))
        else {})"
proof (cases "i < length spools")
  case True
  define f where "f = (\<lambda>j. listDir E (spools ! j)
      ` set (take (count_list sched j - 1) (fst (GetLists E (spools ! j)))))"
  define B where "B = listDir E (spools ! i)
      ` set (take (count_list sched i) (fst (GetLists E (spools ! i))))"
  have "set (take (count_list sched i - 1) (fst (GetLists E (spools ! i))))
      \<subseteq> set (take (count_list sched i) (fst (GetLists E (spools ! i))))"
    by (rule set_take_subset_set_take) simp
  then have sub: "f i \<subseteq> B"
    unfolding f_def B_def by (rule image_mono)
  have "(\<lambda>j. listDir E (spools ! j)
      ` set (take (count_list (sched @ [i]) j - 1) (fst (GetLists E (spools ! j))))) = f(i := B)"
    by (intro ext) (simp add: f_def B_def)
  then have "installed E spools (sched @ [i]) = (\<Union>j \<in> {..<length spools}. (f(i := B)) j)"
    by (simp only: installed_def)
  also have "\<dots> = (\<Union>j \<in> {..<length spools}. f j) \<union> B"
    using True sub by (intro UN_update_grow) simp_all
  also have "(\<Union>j \<in> {..<length spools}. f j) = installed E spools sched"
    by (simp only: installed_def f_def)
  finally show ?thesis
    using True by (simp add: B_def)
next
  case False
  then have "\<And>j. j < length spools \<Longrightarrow> count_list (sched @ [i]) j = count_list sched j"
    by auto
  with False show ?thesis
    by (simp add: installed_def)
qed

lemma installed_part:
  assumes "i < length spools"
  shows "listDir E (spools ! i)
      ` set (take (count_list sched i - 1) (fst (GetLists E (spools ! i))))
    \<subseteq> installed E spools sched"
  using assms unfolding installed_def by blast

lemma Init_step_char:
  assumes "Init_inv lo (installed E spools sched) s"
  shows "\<exists>s'. Init_step E i (Init_goroutines E spools sched, Init_chan E spools sched) s =
            Returns (Init_goroutines E spools (sched @ [i]), Init_chan E spools (sched @ [i])) s'
          \<and> Init_inv lo (installed E spools (sched @ [i])) s'"
proof (cases "i < length spools")
  case False
  with assms show ?thesis
    by (simp add: Init_step_def Init_goroutines_skip Init_chan_snoc installed_snoc)
next
  case True
  define c where "c = count_list sched i"
  define sp where "sp = spools ! i"
  define ls where "ls = fst (GetLists E sp)"
  define err where "err = snd (GetLists E sp)"
  have pair: "GetLists E sp = (ls, err)"
    by (simp add: ls_def err_def)
  have cur: "Init_goroutines E spools sched ! i = goroutine_after E sp c"
    using True by (simp add: Init_goroutines_nth sp_def c_def)
  have nxt: "Init_goroutines E spools (sched @ [i]) =
      (Init_goroutines E spools sched)[i := goroutine_after E sp (Suc c)]"
    using True by (simp add: Init_goroutines_snoc sp_def c_def)
  have chan: "Init_chan E spools (sched @ [i]) =
      Init_chan E spools sched @ (if c = Suc (length ls) then [err] else [])"
    using True by (simp add: Init_chan_snoc sp_def c_def ls_def err_def)
  have inst: "installed E spools (sched @ [i]) =
      installed E spools sched \<union> listDir E sp ` set (take c ls)"
    using True by (simp add: installed_snoc sp_def c_def ls_def)
  consider (first) "c = 0" | (adding) "0 < c" "c \<le> length ls" | (sending) "c = Suc (length ls)"
    | (finished) "Suc (length ls) < c"
    by linarith
  then show ?thesis
  proof cases
    case first
    then have "Init_step E i (Init_goroutines E spools sched, Init_chan E spools sched) s =
        Returns (Init_goroutines E spools (sched @ [i]), Init_chan E spools (sched @ [i])) s"
      using True cur
      by (simp add: Init_step_def nxt chan goroutine_after_def pair ls_def [symmetric]
          err_def [symmetric])
    moreover have "Init_inv lo (installed E spools (sched @ [i])) s"
      using assms first by (simp add: inst)
    ultimately show ?thesis
      by blast
  next
    case adding
    then have d: "drop (c - 1) ls = ls ! (c - 1) # drop c ls"
      using Cons_nth_drop_Suc [of "c - 1" ls] by simp
    from adding have t: "take c ls = take (c - 1) ls @ [ls ! (c - 1)]"
      using take_Suc_conv_app_nth [of "c - 1" ls] by simp
    have "listDir E sp ` set (take (c - 1) ls) \<subseteq> installed E spools sched"
      using installed_part [OF True, of E sched] by (simp add: c_def ls_def sp_def)
    then have grow: "installed E spools (sched @ [i]) =
        insert (listDir E sp (ls ! (c - 1))) (installed E spools sched)"
      unfolding inst t by auto
    from AddList_Init_inv [OF assms, of "listDir E sp (ls ! (c - 1))"]
    obtain r s' where add: "AddList (listDir E sp (ls ! (c - 1))) s = Returns r s'"
      and inv: "Init_inv lo (insert (listDir E sp (ls ! (c - 1))) (installed E spools sched)) s'"
      by blast
    have "Init_step E i (Init_goroutines E spools sched, Init_chan E spools sched) s =
        Returns (Init_goroutines E spools (sched @ [i]), Init_chan E spools (sched @ [i])) s'"
    proof -
      have d': "drop (c - Suc 0) ls = ls ! (c - Suc 0) # drop c ls"
        using d by simp
      have add': "AddList (listDir E sp (ls ! (c - Suc 0))) s = Returns r s'"
        using add by simp
      have g: "Init_goroutines E spools sched ! i = GAdding sp (ls ! (c - Suc 0) # drop c ls) err"
        using cur adding by (simp add: goroutine_after_def d' ls_def [symmetric] err_def [symmetric])
      have g': "goroutine_after E sp (Suc c) = GAdding sp (drop c ls) err"
        using adding by (simp add: goroutine_after_def ls_def [symmetric] err_def [symmetric])
      have ch': "Init_chan E spools (sched @ [i]) = Init_chan E spools sched"
        using adding by (simp add: chan)
      show ?thesis
        using True by (simp add: Init_step_def nxt ch' g g' add')
    qed
    with inv grow show ?thesis
      by auto
  next
    case sending
    then have "Init_step E i (Init_goroutines E spools sched, Init_chan E spools sched) s =
        Returns (Init_goroutines E spools (sched @ [i]), Init_chan E spools (sched @ [i])) s"
      using True cur
      by (simp add: Init_step_def nxt chan goroutine_after_def ls_def [symmetric]
          err_def [symmetric])
    moreover have "take c ls = take (c - 1) ls"
      using sending by simp
    then have "listDir E sp ` set (take c ls) \<subseteq> installed E spools sched"
      using installed_part [OF True, of E sched] by (simp add: c_def ls_def sp_def)
    then have "Init_inv lo (installed E spools (sched @ [i])) s"
      using assms by (simp add: inst Un_absorb2)
    ultimately show ?thesis
      by blast
  next
    case finished
    then have "Init_goroutines E spools sched ! i = GDone"
      using cur by (simp add: goroutine_after_def ls_def)
    moreover from this True
    have "(Init_goroutines E spools sched)[i := GDone] = Init_goroutines E spools sched"
      by (metis list_update_id)
    ultimately
    have "Init_step E i (Init_goroutines E spools sched, Init_chan E spools sched) s =
        Returns (Init_goroutines E spools (sched @ [i]), Init_chan E spools (sched @ [i])) s"
      using True finished
      by (simp add: Init_step_def nxt chan goroutine_after_def ls_def [symmetric])
    moreover have "take c ls = take (c - 1) ls"
      using finished by simp
    then have "listDir E sp ` set (take c ls) \<subseteq> installed E spools sched"
      using installed_part [OF True, of E sched] by (simp add: c_def ls_def sp_def)
    then have "Init_inv lo (installed E spools (sched @ [i])) s"
      using assms by (simp add: inst Un_absorb2)
    ultimately show ?thesis
      by blast
  qed
qed

lemma Init_goroutines_Nil: "Init_goroutines E spools [] = map GStart spools"
proof -
  have "map (\<lambda>i. GStart (spools ! i)) [0..<length spools] = map GStart (map ((!) spools) [0..<length spools])"
    by simp
  then show ?thesis
    by (simp add: Init_goroutines_def goroutine_after_def map_nth)
qed

lemma Init_run_char:
  assumes "Init_inv lo {} s"
  shows "\<exists>s'. Init_run E sched (map GStart spools, []) s =
            Returns (Init_goroutines E spools sched, Init_chan E spools sched) s'
          \<and> Init_inv lo (installed E spools sched) s'"
proof (induction sched rule: rev_induct)
  case Nil
  from assms show ?case
    by (simp add: Init_goroutines_Nil Init_chan_def finish_order_def installed_def)
next
  case (snoc i sched)
  then obtain s1 where run: "Init_run E sched (map GStart spools, []) s =
            Returns (Init_goroutines E spools sched, Init_chan E spools sched) s1"
    and inv: "Init_inv lo (installed E spools sched) s1"
    by blast
  from Init_step_char [OF inv, of i] obtain s2
    where "Init_step E i (Init_goroutines E spools sched, Init_chan E spools sched) s1 =
            Returns (Init_goroutines E spools (sched @ [i]), Init_chan E spools (sched @ [i])) s2"
      and "Init_inv lo (installed E spools (sched @ [i])) s2"
    by blast
  with run show ?case
    by (simp add: Init_run_snoc)
qed

lemma Init_chan_length:
  "(length (Init_chan E spools sched) = length spools) =
     enough (Init_steps E spools) (length spools) sched"
  "\<not> enough (Init_steps E spools) (length spools) sched \<Longrightarrow>
     length (Init_chan E spools sched) < length spools"
  using length_step_order [of "Init_steps E spools" "length spools" sched]
  by (simp_all add: Init_chan_def finish_order_def)

lemma installed_enough:
  assumes "enough (Init_steps E spools) (length spools) sched"
  shows "installed E spools sched = discovered E spools"
proof -
  have "take (count_list sched i - 1) (fst (GetLists E (spools ! i))) = fst (GetLists E (spools ! i))"
    if "i < length spools" for i
  proof -
    from assms that have "Suc (length (fst (GetLists E (spools ! i)))) < count_list sched i"
      by (simp add: enough_iff Init_steps_def)
    then show ?thesis
      by simp
  qed
  then have "installed E spools sched =
      (\<Union>i < length spools. listDir E (spools ! i) ` set (fst (GetLists E (spools ! i))))"
    by (simp add: installed_def)
  also have "\<dots> = discovered E spools"
    unfolding discovered_def by (force simp add: in_set_conv_nth)
  finally show ?thesis .
qed

lemma Init_returns:
  assumes "free (mutex (lm s))" and "enough (Init_steps E spools) (length spools) sched"
  shows "\<exists>s' m. Init E spools sched s = Returns (Init_error E spools sched) s'
           \<and> free (mutex (lm s')) \<and> lists (lm s') = Some m
           \<and> fmdom' m = discovered E spools
           \<and> (\<forall>a \<in> fmran' m. nextp s \<le> a \<and> a < nextp s')"
proof -
  let ?s0 = "s\<lparr>lm := (lm s)\<lparr>lists := Some fmempty\<rparr>\<rparr>"
  have "Init_inv (nextp s) {} ?s0"
    using assms(1) by (simp add: Init_inv_def fmran'_alt_def)
  from Init_run_char [OF this, of E sched spools] obtain s'
    where run: "Init_run E sched (map GStart spools, []) ?s0 =
            Returns (Init_goroutines E spools sched, Init_chan E spools sched) s'"
      and inv: "Init_inv (nextp s) (installed E spools sched) s'"
    by blast
  have len: "length (Init_chan E spools sched) = length spools"
    using assms(2) by (simp add: Init_chan_length)
  have err: "Init_error E spools sched = first_error (Init_chan E spools sched)"
    by (simp add: Init_error_def Init_chan_def)
  have "Init E spools sched s = Returns (Init_error E spools sched) s'"
    by (simp add: Init_def run len collect_errors_None err)
  with inv installed_enough [OF assms(2)] show ?thesis
    unfolding Init_inv_def by auto
qed

lemma Init_waits:
  assumes "free (mutex (lm s))" and "\<not> enough (Init_steps E spools) (length spools) sched"
  shows "\<exists>w. Init E spools sched s = Blocks w"
proof -
  let ?s0 = "s\<lparr>lm := (lm s)\<lparr>lists := Some fmempty\<rparr>\<rparr>"
  have "Init_inv (nextp s) {} ?s0"
    using assms(1) by (simp add: Init_inv_def fmran'_alt_def)
  from Init_run_char [OF this, of E sched spools] obtain s'
    where run: "Init_run E sched (map GStart spools, []) ?s0 =
            Returns (Init_goroutines E spools sched, Init_chan E spools sched) s'"
    by blast
  have len: "length (Init_chan E spools sched) < length spools"
    using assms(2) by (simp add: Init_chan_length)
  show ?thesis
    by (simp add: Init_def run len)
qed

lemma finish_order_perm:
  assumes "enough (Init_steps E spools) (length spools) sched"
  shows "distinct (finish_order E spools sched)"
    "set (finish_order E spools sched) = {..<length spools}"
  using assms
  by (auto simp add: finish_order_def distinct_step_order set_step_order enough_iff)

lemma Init_error_None:
  assumes "enough (Init_steps E spools) (length spools) sched"
  shows "(Init_error E spools sched = None) = (\<forall>sp \<in> set spools. snd (GetLists E sp) = None)"
proof -
  have "(\<forall>i \<in> set (finish_order E spools sched). snd (GetLists E (spools ! i)) = None)
        = (\<forall>sp \<in> set spools. snd (GetLists E sp) = None)"
    unfolding finish_order_perm [OF assms] by (auto simp add: all_set_conv_all_nth)
  then show ?thesis
    by (simp add: Init_error_def first_error_None)
qed

lemma Init_error_mem:
  assumes "Init_error E spools sched = Some e"
  shows "\<exists>sp \<in> set spools. snd (GetLists E sp) = Some e"
proof -
  from assms have "Some e \<in> set (map (\<lambda>i. snd (GetLists E (spools ! i))) (finish_order E spools sched))"
    unfolding Init_error_def by (rule first_error_mem)
  then obtain i where "i \<in> set (finish_order E spools sched)"
    and e: "snd (GetLists E (spools ! i)) = Some e"
    by auto
  then have "i < length spools"
    by (simp add: finish_order_def set_step_order)
  then have "spools ! i \<in> set spools"
    by (rule nth_mem)
  with e show ?thesis
    by blast
qed

lemma Init_error_only:
  assumes "enough (Init_steps E spools) (length spools) sched" and "i < length spools"
    and "\<forall>j < length spools. j \<noteq> i \<longrightarrow> snd (GetLists E (spools ! j)) = None"
  shows "Init_error E spools sched = snd (GetLists E (spools ! i))"
  unfolding Init_error_def
proof (rule first_error_only)
  from assms(2) have "i \<in> set (finish_order E spools sched)"
    by (simp add: finish_order_perm [OF assms(1)])
  then show "snd (GetLists E (spools ! i))
      \<in> set (map (\<lambda>i. snd (GetLists E (spools ! i))) (finish_order E spools sched))"
    by simp
  show "\<forall>y \<in> set (map (\<lambda>i. snd (GetLists E (spools ! i))) (finish_order E spools sched)).
          y = None \<or> y = snd (GetLists E (spools ! i))"
  proof
    fix y
    assume "y \<in> set (map (\<lambda>i. snd (GetLists E (spools ! i))) (finish_order E spools sched))"
    then obtain j where j: "j \<in> set (finish_order E spools sched)"
      and y: "y = snd (GetLists E (spools ! j))"
      by auto
    from j have "j < length spools"
      by (simp add: finish_order_def set_step_order)
    with assms(3) y show "y = None \<or> y = snd (GetLists E (spools ! i))"
      by (cases "j = i") simp_all
  qed
qed

lemma GetLists_failed:
  assumes "snd (GetLists E spool) \<noteq> None"
  shows "fst (GetLists E spool) = []"
  using assms by (simp add: GetLists_def split: sum.splits)

section \<open>Claims about Init\<close>

lemma discovered_succeeding:
  "discovered E spools =
     (\<Union>sp \<in> {sp \<in> set spools. snd (GetLists E sp) = None}. listDir E sp ` set (fst (GetLists E sp)))"
proof (intro set_eqI iffI)
  fix x
  assume "x \<in> discovered E spools"
  then obtain sp where sp: "sp \<in> set spools" and x: "x \<in> listDir E sp ` set (fst (GetLists E sp))"
    unfolding discovered_def by (rule UN_E)
  have "snd (GetLists E sp) = None"
  proof (rule ccontr)
    assume "snd (GetLists E sp) \<noteq> None"
    then have "fst (GetLists E sp) = []"
      by (rule GetLists_failed)
    with x show False
      by simp
  qed
  with sp have "sp \<in> {sp \<in> set spools. snd (GetLists E sp) = None}"
    by simp
  then show "x \<in> (\<Union>sp \<in> {sp \<in> set spools. snd (GetLists E sp) = None}.
      listDir E sp ` set (fst (GetLists E sp)))"
    using x by (rule UN_I)
next
  fix x
  assume "x \<in> (\<Union>sp \<in> {sp \<in> set spools. snd (GetLists E sp) = None}.
      listDir E sp ` set (fst (GetLists E sp)))"
  then obtain sp where "sp \<in> {sp \<in> set spools. snd (GetLists E sp) = None}"
    and x: "x \<in> listDir E sp ` set (fst (GetLists E sp))"
    by (rule UN_E)
  then have "sp \<in> set spools"
    by simp
  then show "x \<in> discovered E spools"
    unfolding discovered_def using x by (rule UN_I)
qed

lemma NewMLMMJWrapper_returns:
  assumes "enough (Init_steps E spools) (length spools) sched"
  shows "\<exists>s' m. NewMLMMJWrapper E spools sched s = Returns (Init_error E spools sched) s'
           \<and> free (mutex (lm s')) \<and> lists (lm s') = Some m \<and> allocated s'
           \<and> fmdom' m = discovered E spools"
proof -
  have "free (mutex (lm (s\<lparr>lm := NewListManager\<rparr>)))"
    by (simp add: NewListManager_def)
  from Init_returns [OF this assms] show ?thesis
    unfolding NewMLMMJWrapper_def allocated_def by fastforce
qed

lemma AddList_keeps_allocated:
  assumes "allocated s" and "AddList n s = Returns r s'"
  shows "allocated s' \<and> free (mutex (lm s')) \<and> lists (lm s') \<noteq> None"
proof (cases "free (mutex (lm s))")
  case False
  with assms(2) show ?thesis
    by (simp add: AddList_busy)
next
  case True
  show ?thesis
  proof (cases "lists (lm s)")
    case None
    with True assms(2) show ?thesis
      by (simp add: AddList_nil)
  next
    case (Some m)
    show ?thesis
    proof (cases "fmlookup m n")
      case None
      have "\<forall>a \<in> fmran' (fmupd n (nextp s) m). a < Suc (nextp s)"
        using assms(1) Some fmran'_fmupd_subset [of n "nextp s" m]
        by (fastforce simp add: allocated_def)
      with True Some None assms(2) show ?thesis
        by (auto simp add: AddList_fresh allocated_def)
    next
      case (Some a)
      with True \<open>lists (lm s) = Some m\<close> assms show ?thesis
        by (auto simp add: AddList_present allocated_def)
    qed
  qed
qed

text \<open>
  C5. \<open>Init\<close> over a list of spools, from any state in which the manager's mutex is
  free (whatever the map was before, nil included), under a schedule that gives every
  goroutine all its steps, returns, and then: the map holds exactly the composed names
  \<open>listDir spool name\<close> for the names \<open>GetLists\<close> gives for the spools of the list,
  which are the names of the spools whose \<open>GetLists\<close> succeeds, since a failing one
  gives none; a failing spool keeps no other spool from being read or its names from
  being installed; every lock in the map was allocated during this call, so nothing of
  the previous map is left; and the error returned is the first that is not nil in
  the order in which the goroutines sent: nil exactly when every spool succeeded, the
  error of the failing spool (so not nil) when one alone fails, and in any case the
  error of one of the spools. Every goroutine sends once. Under a schedule that does
  not let every goroutine finish, \<open>Init\<close> waits.
\<close>

theorem Init_installs:
  assumes "free (mutex (lm s))"
  shows "(enough (Init_steps E spools) (length spools) sched \<longrightarrow>
            (\<exists>s' m. Init E spools sched s = Returns (Init_error E spools sched) s'
               \<and> free (mutex (lm s')) \<and> lists (lm s') = Some m
               \<and> fmdom' m = discovered E spools
               \<and> (\<forall>a \<in> fmran' m. nextp s \<le> a \<and> a < nextp s'))
            \<and> ((Init_error E spools sched = None) =
                 (\<forall>sp \<in> set spools. snd (GetLists E sp) = None))
            \<and> (\<forall>i < length spools.
                  (\<forall>j < length spools. j \<noteq> i \<longrightarrow> snd (GetLists E (spools ! j)) = None) \<longrightarrow>
                  Init_error E spools sched = snd (GetLists E (spools ! i)))
            \<and> distinct (finish_order E spools sched)
            \<and> set (finish_order E spools sched) = {..<length spools})
       \<and> (\<not> enough (Init_steps E spools) (length spools) sched \<longrightarrow>
            (\<exists>w. Init E spools sched s = Blocks w))
       \<and> (\<forall>e. Init_error E spools sched = Some e \<longrightarrow>
            (\<exists>sp \<in> set spools. snd (GetLists E sp) = Some e))
       \<and> (\<forall>sp. snd (GetLists E sp) \<noteq> None \<longrightarrow> fst (GetLists E sp) = [])
       \<and> discovered E spools =
           (\<Union>sp \<in> {sp \<in> set spools. snd (GetLists E sp) = None}.
              listDir E sp ` set (fst (GetLists E sp)))"
proof (intro conjI allI impI)
  assume en: "enough (Init_steps E spools) (length spools) sched"
  show "\<exists>s' m. Init E spools sched s = Returns (Init_error E spools sched) s'
               \<and> free (mutex (lm s')) \<and> lists (lm s') = Some m
               \<and> fmdom' m = discovered E spools
               \<and> (\<forall>a \<in> fmran' m. nextp s \<le> a \<and> a < nextp s')"
    using assms en by (rule Init_returns)
  show "(Init_error E spools sched = None) = (\<forall>sp \<in> set spools. snd (GetLists E sp) = None)"
    using en by (rule Init_error_None)
  show "distinct (finish_order E spools sched)"
    "set (finish_order E spools sched) = {..<length spools}"
    using en by (rule finish_order_perm)+
  fix i
  assume "i < length spools"
    and "\<forall>j < length spools. j \<noteq> i \<longrightarrow> snd (GetLists E (spools ! j)) = None"
  with en show "Init_error E spools sched = snd (GetLists E (spools ! i))"
    by (rule Init_error_only)
next
  assume "\<not> enough (Init_steps E spools) (length spools) sched"
  with assms show "\<exists>w. Init E spools sched s = Blocks w"
    by (rule Init_waits)
next
  fix e
  assume "Init_error E spools sched = Some e"
  then show "\<exists>sp \<in> set spools. snd (GetLists E sp) = Some e"
    by (rule Init_error_mem)
next
  fix sp
  assume "snd (GetLists E sp) \<noteq> None"
  then show "fst (GetLists E sp) = []"
    by (rule GetLists_failed)
next
  show "discovered E spools =
           (\<Union>sp \<in> {sp \<in> set spools. snd (GetLists E sp) = None}.
              listDir E sp ` set (fst (GetLists E sp)))"
    by (rule discovered_succeeding)
qed

lemma example_GetLists:
  "GetLists example_env ''/spool'' = ([''alpha'', ''beta''], None)"
  "GetLists example_env ''/missing'' = ([], Some (Err ''no such directory''))"
  "GetLists example_env ''/more'' = ([''gamma''], None)"
  by (simp_all add: GetLists_def example_env_def)

lemma example_Init:
  "enough (Init_steps example_env [''/spool'', ''/missing'', ''/more''])
     (length [''/spool'', ''/missing'', ''/more'']) [0, 1, 2, 0, 2, 1, 0, 2, 0]"
  "Init_error example_env [''/spool'', ''/missing'', ''/more''] [0, 1, 2, 0, 2, 1, 0, 2, 0]
     = Some (Err ''no such directory'')"
  by (simp_all add: enough_def Init_steps_def Init_error_def finish_order_def
      example_GetLists upt_rec)

lemma example_discovered:
  "discovered example_env [''/spool'', ''/missing'', ''/more'']
     = {''/spool/alpha'', ''/spool/beta'', ''/more/gamma''}"
  by (simp add: discovered_def example_GetLists insert_commute)

theorem Init_installs_witness:
  "\<exists>s' m. Init example_env [''/spool'', ''/missing'', ''/more''] [0, 1, 2, 0, 2, 1, 0, 2, 0] alpha_world
       = Returns (Some (Err ''no such directory'')) s'
     \<and> free (mutex (lm s')) \<and> lists (lm s') = Some m
     \<and> fmdom' m = {''/spool/alpha'', ''/spool/beta'', ''/more/gamma''}
     \<and> (\<forall>a \<in> fmran' m. nextp alpha_world \<le> a \<and> a < nextp s')"
  using Init_installs [where s = alpha_world and E = example_env
      and spools = "[''/spool'', ''/missing'', ''/more'']"
      and sched = "[0, 1, 2, 0, 2, 1, 0, 2, 0]", THEN conjunct1]
    example_Init example_discovered
  by simp

section \<open>What RemoveList keeps\<close>

lemma fmran'_fmdrop_subset: "fmran' (fmdrop n m) \<subseteq> fmran' m"
  by (auto simp add: fmlookup_ran'_iff split: if_splits)

lemma RemoveList_keeps_allocated:
  assumes "allocated s" and "RemoveList n s = Returns r s'"
  shows "allocated s' \<and> free (mutex (lm s')) \<and> (lists (lm s') = None) = (lists (lm s) = None)"
proof (cases "free (mutex (lm s))")
  case False
  with assms(2) show ?thesis
    by (simp add: RemoveList_busy)
next
  case True
  show ?thesis
  proof (cases "index_lists n s")
    case None
    with True assms show ?thesis
      by (auto simp add: RemoveList_absent allocated_def split: option.splits)
  next
    case (Some a)
    then obtain m where m: "lists (lm s) = Some m" "fmlookup m n = Some a"
      by (auto simp add: index_lists_def split: option.splits)
    have "\<forall>a \<in> fmran' (fmdrop n m). a < nextp s"
      using assms(1) m(1) fmran'_fmdrop_subset [of n m] by (fastforce simp add: allocated_def)
    with True m assms(2) show ?thesis
      by (auto simp add: RemoveList_present allocated_def)
  qed
qed

end
